theory Spec2Isabelle
  imports Complex_Main
begin

section \<open>JavaScript values used by the date formatter\<close>

text \<open>
  The repository's only function is \<open>formatDate\<close>:
  \<^verbatim>\<open>
  // split YYYY-MM-DD to avoid UTC shifts
  export function formatDate(dateStr: string) {
    const [year, month, day] = dateStr.split('-').map(Number);
    const date = new Date(year, month - 1, day);
    return date.toLocaleDateString('en-US', {
      year: 'numeric', month: 'short', day: '2-digit' });
  }
  \<close>
  Its three lines call built-ins of the language (\<open>String.prototype.split\<close>,
  \<open>Number\<close>, the \<open>Date\<close> constructor and \<open>toLocaleDateString\<close>). They are
  embedded below after ECMA-262 (and ECMA-402 with the CLDR pattern of \<open>en-US\<close>),
  operation by operation and under the names the standard gives them.

  A string is a list of code units; the model has the code units \<open>0x00\<close> to \<open>0xFF\<close>
  (type \<open>char\<close>).  A Number is a binary64 value: \<open>NaN\<close>, an infinity, or a finite
  value kept as the rational it denotes (the two zeros are not told apart: no operation
  used here distinguishes them).
\<close>

datatype number = NaN | Val rat | PosInf | NegInf

subsection \<open>Rounding to binary64\<close>

definition pow :: "int \<Rightarrow> int \<Rightarrow> rat" where
  "pow b e = (if 0 \<le> e then of_int b ^ nat e else 1 / of_int b ^ nat (- e))"

function bitlen :: "int \<Rightarrow> int" where
  "bitlen n = (if n \<le> 0 then 0 else 1 + bitlen (n div 2))"
  by pat_completeness auto
termination
  by (relation "measure nat") auto

declare bitlen.simps [simp del]

definition floor_log2 :: "rat \<Rightarrow> int" where
  \<comment> \<open>for \<open>0 < q\<close>: the \<open>e\<close> with \<open>2 ^ e \<le> q < 2 ^ (e + 1)\<close>\<close>
  "floor_log2 q =
     (let e = bitlen (fst (quotient_of q)) - bitlen (snd (quotient_of q))
      in if pow 2 e \<le> q then e else e - 1)"

definition round_half_even :: "rat \<Rightarrow> int" where
  "round_half_even m =
     (let f = \<lfloor>m\<rfloor>; r = m - of_int f
      in if r < 1 / 2 then f else if 1 / 2 < r then f + 1 else if even f then f else f + 1)"

definition round_double :: "rat \<Rightarrow> number" where
  \<comment> \<open>roundTiesToEven of IEEE 754 for binary64: 53 significant bits, least exponent
      \<open>-1022\<close> (subnormals below), overflow to an infinity from \<open>2 ^ 1024\<close>\<close>
  "round_double q =
     (if q = 0 then Val 0
      else
        let a = \<bar>q\<bar>;
            e = max (floor_log2 a) (- 1022);
            ulp = pow 2 (e - 52);
            v = of_int (round_half_even (a / ulp)) * ulp
        in if pow 2 1024 \<le> v then (if 0 < q then PosInf else NegInf)
           else Val (if 0 < q then v else - v))"

subsection \<open>\<open>Number(string)\<close>: StringToNumber\<close>

definition is_white_space :: "char \<Rightarrow> bool" where
  \<comment> \<open>StrWhiteSpaceChar: TAB, LF, VT, FF, CR, SP, NBSP (those below \<open>0x100\<close>)\<close>
  "is_white_space c = (of_char c \<in> {9, 10, 11, 12, 13, 32, 160 :: int})"

definition trim :: "string \<Rightarrow> string" where
  "trim s = rev (dropWhile is_white_space (rev (dropWhile is_white_space s)))"

definition digit_value :: "char \<Rightarrow> int" where
  "digit_value c =
     (let n = (of_char c :: int)
      in if 48 \<le> n \<and> n \<le> 57 then n - 48
         else if 97 \<le> n \<and> n \<le> 102 then n - 87
         else if 65 \<le> n \<and> n \<le> 70 then n - 55
         else 36)"

definition is_digit_of :: "int \<Rightarrow> char \<Rightarrow> bool" where
  "is_digit_of base c = (digit_value c < base)"

abbreviation is_digit :: "char \<Rightarrow> bool" where
  "is_digit \<equiv> is_digit_of 10"

definition digits_value :: "int \<Rightarrow> string \<Rightarrow> int" where
  "digits_value base s = foldl (\<lambda>acc c. base * acc + digit_value c) 0 s"

definition exponent_part :: "string \<Rightarrow> int option" where
  \<comment> \<open>ExponentPart, optional: \<open>e\<close> or \<open>E\<close>, an optional sign, one digit or more\<close>
  "exponent_part s =
     (case s of
        [] \<Rightarrow> Some 0
      | c # r \<Rightarrow>
          if c = CHR ''e'' \<or> c = CHR ''E'' then
            (let neg = (r \<noteq> [] \<and> hd r = CHR ''-'');
                 ds = (if r \<noteq> [] \<and> (hd r = CHR ''+'' \<or> hd r = CHR ''-'') then tl r else r)
             in if ds \<noteq> [] \<and> list_all is_digit ds
                then Some (if neg then - digits_value 10 ds else digits_value 10 ds)
                else None)
          else None)"

definition unsigned_decimal :: "string \<Rightarrow> rat option" where
  \<comment> \<open>StrUnsignedDecimalLiteral but \<open>Infinity\<close>: digits, an optional point and digits,
      an optional exponent; a digit on one side of the point at least\<close>
  "unsigned_decimal s =
     (let ip = takeWhile is_digit s;
          r1 = dropWhile is_digit s;
          dot = (r1 \<noteq> [] \<and> hd r1 = CHR ''.'');
          fp = (if dot then takeWhile is_digit (tl r1) else []);
          r2 = (if dot then dropWhile is_digit (tl r1) else r1)
      in if ip = [] \<and> fp = [] then None
         else (case exponent_part r2 of
                 None \<Rightarrow> None
               | Some e \<Rightarrow>
                   Some (of_int (digits_value 10 (ip @ fp)) * pow 10 (e - int (length fp)))))"

definition non_decimal :: "string \<Rightarrow> rat option" where
  \<comment> \<open>NonDecimalIntegerLiteral: \<open>0x\<close>, \<open>0o\<close>, \<open>0b\<close> (either case) and digits of the base\<close>
  "non_decimal s =
     (case s of
        z # p # ds \<Rightarrow>
          (let base = (if p = CHR ''x'' \<or> p = CHR ''X'' then 16
                       else if p = CHR ''o'' \<or> p = CHR ''O'' then 8
                       else if p = CHR ''b'' \<or> p = CHR ''B'' then 2 else 0)
           in if z = CHR ''0'' \<and> ds \<noteq> [] \<and> list_all (is_digit_of base) ds
              then Some (of_int (digits_value base ds)) else None)
      | _ \<Rightarrow> None)"

definition StringToNumber :: "string \<Rightarrow> number" where
  "StringToNumber str =
     (let s = trim str in
      if s = [] then Val 0
      else
        (case non_decimal s of
           Some q \<Rightarrow> round_double q
         | None \<Rightarrow>
            (let neg = (hd s = CHR ''-'');
                 u = (if hd s = CHR ''+'' \<or> hd s = CHR ''-'' then tl s else s)
             in if u = ''Infinity'' then (if neg then NegInf else PosInf)
                else (case unsigned_decimal u of
                        None \<Rightarrow> NaN
                      | Some q \<Rightarrow> round_double (if neg then - q else q)))))"

definition Number :: "string \<Rightarrow> number" where
  \<comment> \<open>\<open>Number(value)\<close> on a string value\<close>
  "Number s = StringToNumber s"

definition ToNumber :: "number option \<Rightarrow> number" where
  \<comment> \<open>on a Number or \<open>undefined\<close> (\<open>None\<close>)\<close>
  "ToNumber v = (case v of None \<Rightarrow> NaN | Some n \<Rightarrow> n)"

definition subtract :: "number \<Rightarrow> number \<Rightarrow> number" where
  \<comment> \<open>Number::subtract\<close>
  "subtract x y =
     (case (x, y) of
        (NaN, _) \<Rightarrow> NaN
      | (_, NaN) \<Rightarrow> NaN
      | (PosInf, PosInf) \<Rightarrow> NaN
      | (NegInf, NegInf) \<Rightarrow> NaN
      | (PosInf, _) \<Rightarrow> PosInf
      | (NegInf, _) \<Rightarrow> NegInf
      | (_, PosInf) \<Rightarrow> NegInf
      | (_, NegInf) \<Rightarrow> PosInf
      | (Val a, Val b) \<Rightarrow> round_double (a - b))"

definition trunc :: "rat \<Rightarrow> int" where
  \<comment> \<open>ToIntegerOrInfinity on a finite value\<close>
  "trunc q = (if 0 \<le> q then \<lfloor>q\<rfloor> else \<lceil>q\<rceil>)"

subsection \<open>\<open>split\<close> and array elements\<close>

fun split :: "char \<Rightarrow> string \<Rightarrow> string list" where
  "split sep [] = [[]]"
| "split sep (c # s) =
     (if c = sep then [] # split sep s
      else (case split sep s of w # ws \<Rightarrow> (c # w) # ws | [] \<Rightarrow> [[c]]))"

definition element :: "'a list \<Rightarrow> nat \<Rightarrow> 'a option" where
  \<comment> \<open>reading an array past its length gives \<open>undefined\<close>\<close>
  "element xs i = (if i < length xs then Some (xs ! i) else None)"

section \<open>Time values and the \<open>Date\<close> constructor\<close>

text \<open>
  A time value is a number of milliseconds since the epoch, or \<open>NaN\<close> (here \<open>None\<close>).
  ECMA-262 computes on time values with exact integers below \<open>2 ^ 53\<close>; \<open>TimeClip\<close>
  turns every time value beyond \<open>8.64e15\<close> into \<open>NaN\<close>, so the model computes on
  \<open>int\<close> and clips there. Where ECMA-262 lets \<open>MakeDay\<close> give \<open>NaN\<close> at once because
  the year is beyond every time value, the model gives the day number and \<open>TimeClip\<close>
  refuses it afterwards: \<open>formatDate\<close> passes no negative year or day, so nothing brings
  such a day back into range.

  ECMA-262 defines \<open>YearFromTime\<close> as the largest year that starts at or before the
  time, and has \<open>MakeDay\<close> find the day on which a month starts. Both are computed
  here, and proved below to be what the standard asks for (lemmas
  \<open>YearFromTime_largest\<close> and \<open>DayOfFirst_fields\<close>).
\<close>

definition msPerDay :: int where
  "msPerDay = 86400000"

definition Day :: "int \<Rightarrow> int" where
  "Day t = t div msPerDay"

definition DaysInYear :: "int \<Rightarrow> int" where
  "DaysInYear y =
     (if y mod 4 \<noteq> 0 then 365
      else if y mod 100 \<noteq> 0 then 366
      else if y mod 400 \<noteq> 0 then 365
      else 366)"

definition DayFromYear :: "int \<Rightarrow> int" where
  "DayFromYear y =
     365 * (y - 1970) + (y - 1969) div 4 - (y - 1901) div 100 + (y - 1601) div 400"

definition TimeFromYear :: "int \<Rightarrow> int" where
  "TimeFromYear y = msPerDay * DayFromYear y"

definition YearFromTime :: "int \<Rightarrow> int" where
  \<comment> \<open>the largest \<open>y\<close> with \<open>TimeFromYear y \<le> t\<close> (lemma \<open>YearFromTime_largest\<close>):
      an estimate from the mean length of a year, moved by one year where it is off\<close>
  "YearFromTime t =
     (let y = 1970 + (400 * Day t) div 146097
      in if TimeFromYear (y + 1) \<le> t then y + 1
         else if t < TimeFromYear y then y - 1
         else y)"

definition DayWithinYear :: "int \<Rightarrow> int" where
  "DayWithinYear t = Day t - DayFromYear (YearFromTime t)"

definition InLeapYear :: "int \<Rightarrow> int" where
  "InLeapYear t = (if DaysInYear (YearFromTime t) = 366 then 1 else 0)"

definition MonthFromTime :: "int \<Rightarrow> int" where
  "MonthFromTime t =
     (let d = DayWithinYear t; leap = InLeapYear t
      in if d < 31 then 0
         else if d < 59 + leap then 1
         else if d < 90 + leap then 2
         else if d < 120 + leap then 3
         else if d < 151 + leap then 4
         else if d < 181 + leap then 5
         else if d < 212 + leap then 6
         else if d < 243 + leap then 7
         else if d < 273 + leap then 8
         else if d < 304 + leap then 9
         else if d < 334 + leap then 10
         else 11)"

definition DateFromTime :: "int \<Rightarrow> int" where
  "DateFromTime t =
     (let d = DayWithinYear t; leap = InLeapYear t; m = MonthFromTime t
      in if m = 0 then d + 1
         else if m = 1 then d - 30
         else if m = 2 then d - 58 - leap
         else if m = 3 then d - 89 - leap
         else if m = 4 then d - 119 - leap
         else if m = 5 then d - 150 - leap
         else if m = 6 then d - 180 - leap
         else if m = 7 then d - 211 - leap
         else if m = 8 then d - 242 - leap
         else if m = 9 then d - 272 - leap
         else if m = 10 then d - 303 - leap
         else d - 333 - leap)"

definition DayFromMonth :: "int \<Rightarrow> int \<Rightarrow> int" where
  \<comment> \<open>days of year \<open>y\<close> before its month \<open>m\<close> (\<open>0\<close> to \<open>11\<close>)\<close>
  "DayFromMonth y m =
     (let leap = (if DaysInYear y = 366 then 1 else 0)
      in if m = 0 then 0
         else if m = 1 then 31
         else if m = 2 then 59 + leap
         else if m = 3 then 90 + leap
         else if m = 4 then 120 + leap
         else if m = 5 then 151 + leap
         else if m = 6 then 181 + leap
         else if m = 7 then 212 + leap
         else if m = 8 then 243 + leap
         else if m = 9 then 273 + leap
         else if m = 10 then 304 + leap
         else 334 + leap)"

definition DayOfFirst :: "int \<Rightarrow> int \<Rightarrow> int" where
  \<comment> \<open>\<open>Day(t)\<close> of the time value \<open>t\<close> that \<open>MakeDay\<close> is to find: the one with
      \<open>YearFromTime(t) = ym\<close>, \<open>MonthFromTime(t) = mn\<close> and \<open>DateFromTime(t) = 1\<close>
      (lemma \<open>DayOfFirst_fields\<close>)\<close>
  "DayOfFirst ym mn = DayFromYear ym + DayFromMonth ym mn"

definition MakeDay :: "number \<Rightarrow> number \<Rightarrow> number \<Rightarrow> int option" where
  \<comment> \<open>\<open>NaN\<close> unless the three arguments are finite; then the day of the first of month
      \<open>mn\<close> of year \<open>ym\<close>, and \<open>dt - 1\<close> days on\<close>
  "MakeDay year month date =
     (case (year, month, date) of
        (Val y, Val m, Val dt) \<Rightarrow>
          (let ym = trunc y + trunc m div 12;
               mn = trunc m mod 12
           in Some (DayOfFirst ym mn + trunc dt - 1))
      | _ \<Rightarrow> None)"

definition MakeTime :: "int \<Rightarrow> int \<Rightarrow> int \<Rightarrow> int \<Rightarrow> int" where
  "MakeTime hour minute sec ms = hour * 3600000 + minute * 60000 + sec * 1000 + ms"

definition MakeDate :: "int option \<Rightarrow> int \<Rightarrow> int option" where
  "MakeDate day time = (case day of None \<Rightarrow> None | Some d \<Rightarrow> Some (d * msPerDay + time))"

definition TimeClip :: "int \<Rightarrow> int option" where
  "TimeClip time = (if 8640000000000000 < \<bar>time\<bar> then None else Some time)"

text \<open>
  The host's time zone is the function \<open>LocalTZA(t, isUTC)\<close> of ECMA-262: the offset of
  local time from UTC in milliseconds, at the UTC time \<open>t\<close> (\<open>isUTC\<close> true) or at the
  local time \<open>t\<close> (\<open>isUTC\<close> false). It is a parameter of every operation that reads the
  local time.
\<close>

type_synonym zone = "int \<Rightarrow> bool \<Rightarrow> int"

definition fixed_zone :: "int \<Rightarrow> zone" where
  \<comment> \<open>a zone with one offset at all times\<close>
  "fixed_zone offset = (\<lambda>t isUTC. offset)"

definition LocalTime :: "zone \<Rightarrow> int \<Rightarrow> int" where
  "LocalTime LocalTZA t = t + LocalTZA t True"

definition UTC :: "zone \<Rightarrow> int \<Rightarrow> int" where
  "UTC LocalTZA t = t - LocalTZA t False"

definition Date :: "zone \<Rightarrow> number \<Rightarrow> number \<Rightarrow> number \<Rightarrow> int option" where
  \<comment> \<open>\<open>new Date(year, month, date)\<close>: the time value of the new object. A year from
      \<open>0\<close> to \<open>99\<close> stands for \<open>1900\<close> to \<open>1999\<close>.\<close>
  "Date LocalTZA year month date =
     (let yr = (case year of
                  Val y \<Rightarrow>
                    (let yi = trunc y
                     in if 0 \<le> yi \<and> yi \<le> 99 then Val (of_int (1900 + yi)) else year)
                | _ \<Rightarrow> year)
      in case MakeDate (MakeDay yr month date) (MakeTime 0 0 0 0) of
           None \<Rightarrow> None
         | Some finalDate \<Rightarrow> TimeClip (UTC LocalTZA finalDate))"

section \<open>\<open>toLocaleDateString\<close> for \<open>en-US\<close>\<close>

text \<open>
  With the options \<open>year: 'numeric', month: 'short', day: '2-digit'\<close> the locale
  \<open>en-US\<close> has the pattern \<open>MMM dd, y\<close> (CLDR): the abbreviated month name, the day in
  two digits, a comma and the year of the era without padding. An invalid date gives
  the string \<open>Invalid Date\<close>.
\<close>

function decimal :: "int \<Rightarrow> string" where
  "decimal n =
     (if n < 10 then [char_of (48 + n)] else decimal (n div 10) @ [char_of (48 + n mod 10)])"
  by pat_completeness auto
termination
  by (relation "measure nat") auto

declare decimal.simps [simp del]

definition two_digit :: "int \<Rightarrow> string" where
  "two_digit n = [char_of (48 + n div 10 mod 10), char_of (48 + n mod 10)]"

definition month_short :: "int \<Rightarrow> string" where
  "month_short m =
     [''Jan'', ''Feb'', ''Mar'', ''Apr'', ''May'', ''Jun'',
      ''Jul'', ''Aug'', ''Sep'', ''Oct'', ''Nov'', ''Dec''] ! nat m"

definition en_US_short :: "int \<Rightarrow> int \<Rightarrow> int \<Rightarrow> string" where
  \<comment> \<open>year, month (\<open>0\<close> to \<open>11\<close>) and day of the month in the pattern \<open>MMM dd, y\<close>\<close>
  "en_US_short y m d =
     month_short m @ '' '' @ two_digit d @ '', '' @ decimal (if 0 < y then y else 1 - y)"

definition toLocaleDateString :: "zone \<Rightarrow> int option \<Rightarrow> string" where
  "toLocaleDateString LocalTZA tv =
     (case tv of
        None \<Rightarrow> ''Invalid Date''
      | Some x \<Rightarrow>
          (let t = LocalTime LocalTZA x
           in en_US_short (YearFromTime t) (MonthFromTime t) (DateFromTime t)))"

section \<open>\<open>formatDate\<close>\<close>

definition formatDate :: "zone \<Rightarrow> string \<Rightarrow> string" where
  "formatDate LocalTZA dateStr =
     (let parts = map Number (split CHR ''-'' dateStr);
          year = element parts 0;
          month = element parts 1;
          day = element parts 2;
          date = Date LocalTZA (ToNumber year) (subtract (ToNumber month) (Val 1)) (ToNumber day)
      in toLocaleDateString LocalTZA date)"

section \<open>Dates of the calendar and input in the form \<open>YYYY-MM-DD\<close>\<close>

text \<open>
  The notions the statements about \<open>formatDate\<close> and about the check \<open>date\<close> are
  written with: the dates of the (proleptic Gregorian) calendar, the strings of the
  form \<open>YYYY-MM-DD\<close> with their three numbers, and the local time at which the
  constructor \<open>Date\<close> puts a date.
\<close>

definition days_in_month :: "int \<Rightarrow> int \<Rightarrow> int" where
  "days_in_month y m =
     (if m = 2 then (if DaysInYear y = 366 then 29 else 28)
      else if m = 4 \<or> m = 6 \<or> m = 9 \<or> m = 11 then 30
      else 31)"

definition common_days :: "int \<Rightarrow> int" where
  \<comment> \<open>the days of a month in a year that is no leap year\<close>
  "common_days m = (if m = 2 then 28 else if m = 4 \<or> m = 6 \<or> m = 9 \<or> m = 11 then 30 else 31)"

definition valid_date :: "int \<Rightarrow> int \<Rightarrow> int \<Rightarrow> bool" where
  \<comment> \<open>year, month (\<open>1\<close> to \<open>12\<close>) and day of a date of the calendar\<close>
  "valid_date y m d = (1 \<le> m \<and> m \<le> 12 \<and> 1 \<le> d \<and> d \<le> days_in_month y m)"

definition iso_fields :: "string \<Rightarrow> (int \<times> int \<times> int) option" where
  \<comment> \<open>the numbers of a string of four digits, a hyphen, two digits, a hyphen and two
      digits; \<open>None\<close> for every other string\<close>
  "iso_fields s =
     (case s of
        [y1, y2, y3, y4, h1, m1, m2, h2, d1, d2] \<Rightarrow>
          if h1 = CHR ''-'' \<and> h2 = CHR ''-'' \<and> list_all is_digit [y1, y2, y3, y4, m1, m2, d1, d2]
          then Some (digits_value 10 [y1, y2, y3, y4], digits_value 10 [m1, m2],
                     digits_value 10 [d1, d2])
          else None
      | _ \<Rightarrow> None)"

definition is_calendar_date :: "string \<Rightarrow> bool" where
  \<comment> \<open>a string in the form \<open>YYYY-MM-DD\<close> that denotes a date of the calendar\<close>
  "is_calendar_date s =
     (case iso_fields s of None \<Rightarrow> False | Some (y, m, d) \<Rightarrow> valid_date y m d)"

definition full_year :: "int \<Rightarrow> int" where
  \<comment> \<open>the year the constructor \<open>Date\<close> takes for an integral year argument\<close>
  "full_year y = (if 0 \<le> y \<and> y \<le> 99 then 1900 + y else y)"

definition local_midnight :: "int \<Rightarrow> int \<Rightarrow> int \<Rightarrow> int" where
  \<comment> \<open>the local time of \<open>new Date(y, m, d)\<close> for integers: the start of the day that
      lies \<open>d - 1\<close> days after the first of the month that lies \<open>m\<close> months after
      January of \<open>full_year y\<close>\<close>
  "local_midnight y m d =
     (DayOfFirst (full_year y + m div 12) (m mod 12) + d - 1) * msPerDay"

definition agrees_at :: "zone \<Rightarrow> int \<Rightarrow> bool" where
  \<comment> \<open>the local time \<open>t\<close> exists in the zone: its offset is the offset of the UTC time
      it is taken to, and is less than a day\<close>
  "agrees_at LocalTZA t =
     (\<bar>LocalTZA t False\<bar> < msPerDay \<and> LocalTZA (UTC LocalTZA t) True = LocalTZA t False)"

definition skipping_zone :: zone where
  \<comment> \<open>a zone that goes from \<open>-10:00\<close> to \<open>+14:00\<close> at 2011-12-30 10:00 UTC, as Samoa
      did: local time goes from the end of 29 December to the start of 31 December, and
      a local time of the day between is read with the offset before the change\<close>
  "skipping_zone =
     (\<lambda>t isUTC.
        if isUTC then (if t < 1325239200000 then - 36000000 else 50400000)
        else (if t < 1325289600000 then - 36000000 else 50400000))"

definition day_of_month :: "string \<Rightarrow> string" where
  \<comment> \<open>the day in a string of the pattern \<open>MMM dd, y\<close>\<close>
  "day_of_month out = take 2 (drop 4 out)"

section \<open>The content collections\<close>

text \<open>
  \<open>src/content.config.ts\<close> declares two collections, each a loader and a schema:
  \<^verbatim>\<open>
  const blog = defineCollection({
    loader: glob({ pattern: '**/*.(md|mdx)', base: './src/content/blog' }),
    schema: z.object({
      title: z.string(),
      date: z.string().date(),
      tags: z.array(z.string()),
    }),
  });
  const projects = defineCollection({
    loader: file('./src/content/projects/projects.json'),
    schema: z.object({
      id: z.number(),
      title: z.string(),
      description: z.string(),
      imagePath: z.string(),
      repo: z.string().url(),
      live: z.string().url(),
    }),
  });
  \<close>
  The schemas are terms of the schema language of the validation library (zod), which
  is a dependency of the repository and not part of it. The terms are embedded as
  written; what a schema accepts is the library's parsing of a value, embedded in
  \<open>issues\<close> and \<open>parsed\<close> below for the four schema formers and the two string
  checks the repository uses.
\<close>

subsection \<open>Values of parsed front matter and JSON\<close>

datatype jsval =
    JUndefined
  | JNull
  | JBool bool
  | JNum number
  | JStr string
  | JArr "jsval list"
  | JObj "(string \<times> jsval) list"
  | JDate "int option"

definition get :: "(string \<times> jsval) list \<Rightarrow> string \<Rightarrow> jsval" where
  \<comment> \<open>reading a property; one that is absent reads as \<open>undefined\<close>\<close>
  "get props k = (case map_of props k of None \<Rightarrow> JUndefined | Some v \<Rightarrow> v)"

subsection \<open>Schemas\<close>

datatype string_check = date | url

datatype schema =
    z_string "string_check list"
  | z_number
  | z_array schema
  | z_object "(string \<times> schema) list"

datatype loader = glob string string | "file" string

record collection =
  loader :: loader
  schema :: schema

definition blog :: collection where
  "blog =
     \<lparr> loader = glob ''**/*.(md|mdx)'' ''./src/content/blog'',
       schema = z_object
         [(''title'', z_string []),
          (''date'', z_string [date]),
          (''tags'', z_array (z_string []))] \<rparr>"

definition projects :: collection where
  "projects =
     \<lparr> loader = file ''./src/content/projects/projects.json'',
       schema = z_object
         [(''id'', z_number),
          (''title'', z_string []),
          (''description'', z_string []),
          (''imagePath'', z_string []),
          (''repo'', z_string [url]),
          (''live'', z_string [url])] \<rparr>"

definition collections :: "(string \<times> collection) list" where
  "collections = [(''blog'', blog), (''projects'', projects)]"

subsection \<open>The string check \<open>date\<close>\<close>

text \<open>
  \<open>z.string().date()\<close> tests the string against the library's regular expression
  \<^verbatim>\<open>
  ^((\d\d[2468][048]|\d\d[13579][26]|\d\d0[48]|[02468][048]00|[13579][26]00)-02-29
    |\d{4}-((0[13578]|1[02])-(0[1-9]|[12]\d|3[01])
           |(0[469]|11)-(0[1-9]|[12]\d|30)
           |(02)-(0[1-9]|1\d|2[0-8])))$
  \<close>
  The matcher below follows its alternatives in their order.
\<close>

definition one_of :: "string \<Rightarrow> char \<Rightarrow> bool" where
  \<comment> \<open>a character class\<close>
  "one_of cs c = (c \<in> set cs)"

definition leap_year_digits :: "char \<Rightarrow> char \<Rightarrow> char \<Rightarrow> char \<Rightarrow> bool" where
  "leap_year_digits a b c d =
     (is_digit a \<and> is_digit b \<and> one_of ''2468'' c \<and> one_of ''048'' d
      \<or> is_digit a \<and> is_digit b \<and> one_of ''13579'' c \<and> one_of ''26'' d
      \<or> is_digit a \<and> is_digit b \<and> c = CHR ''0'' \<and> one_of ''48'' d
      \<or> one_of ''02468'' a \<and> one_of ''048'' b \<and> c = CHR ''0'' \<and> d = CHR ''0''
      \<or> one_of ''13579'' a \<and> one_of ''26'' b \<and> c = CHR ''0'' \<and> d = CHR ''0'')"

definition month_day_digits :: "char \<Rightarrow> char \<Rightarrow> char \<Rightarrow> char \<Rightarrow> bool" where
  "month_day_digits m1 m2 d1 d2 =
     ((m1 = CHR ''0'' \<and> one_of ''13578'' m2 \<or> m1 = CHR ''1'' \<and> one_of ''02'' m2)
        \<and> (d1 = CHR ''0'' \<and> one_of ''123456789'' d2
             \<or> one_of ''12'' d1 \<and> is_digit d2
             \<or> d1 = CHR ''3'' \<and> one_of ''01'' d2)
      \<or> (m1 = CHR ''0'' \<and> one_of ''469'' m2 \<or> m1 = CHR ''1'' \<and> m2 = CHR ''1'')
        \<and> (d1 = CHR ''0'' \<and> one_of ''123456789'' d2
             \<or> one_of ''12'' d1 \<and> is_digit d2
             \<or> d1 = CHR ''3'' \<and> d2 = CHR ''0'')
      \<or> (m1 = CHR ''0'' \<and> m2 = CHR ''2'')
        \<and> (d1 = CHR ''0'' \<and> one_of ''123456789'' d2
             \<or> d1 = CHR ''1'' \<and> is_digit d2
             \<or> d1 = CHR ''2'' \<and> one_of ''012345678'' d2))"

definition dateRegex :: "string \<Rightarrow> bool" where
  "dateRegex s =
     (case s of
        [y1, y2, y3, y4, h1, m1, m2, h2, d1, d2] \<Rightarrow>
          h1 = CHR ''-'' \<and> h2 = CHR ''-'' \<and>
          (leap_year_digits y1 y2 y3 y4 \<and> [m1, m2, d1, d2] = ''0229''
           \<or> is_digit y1 \<and> is_digit y2 \<and> is_digit y3 \<and> is_digit y4
             \<and> month_day_digits m1 m2 d1 d2)
      | _ \<Rightarrow> False)"

subsection \<open>The string check \<open>url\<close>\<close>

text \<open>
  \<open>z.string().url()\<close> accepts the string when \<open>new URL(string)\<close> returns. The URL
  parser (WHATWG) starts, with no base URL, by stripping the input and reading a
  scheme; an input in which it finds no scheme is a failure. These first states are
  embedded; the states after the scheme (authority, host, port, path, query and
  fragment) are the parameter \<open>after_scheme\<close>, which says whether the parser accepts
  the rest of the input for the scheme. The parser's own states after the scheme
  are embedded below (\<open>parse_after_scheme\<close>); what holds for every value of the
  parameter holds for them.
\<close>

type_synonym url_rest = "string \<Rightarrow> string \<Rightarrow> bool"

definition is_c0_or_space :: "char \<Rightarrow> bool" where
  "is_c0_or_space c = ((of_char c :: int) \<le> 32)"

definition is_tab_or_newline :: "char \<Rightarrow> bool" where
  "is_tab_or_newline c = (of_char c \<in> {9, 10, 13 :: int})"

definition is_ascii_alpha :: "char \<Rightarrow> bool" where
  "is_ascii_alpha c =
     (let n = (of_char c :: int) in 65 \<le> n \<and> n \<le> 90 \<or> 97 \<le> n \<and> n \<le> 122)"

definition ascii_lower :: "char \<Rightarrow> char" where
  "ascii_lower c =
     (let n = (of_char c :: int) in if 65 \<le> n \<and> n \<le> 90 then char_of (n + 32) else c)"

definition url_input :: "string \<Rightarrow> string" where
  \<comment> \<open>leading and trailing C0 controls and spaces removed, then every tab and newline\<close>
  "url_input s =
     filter (\<lambda>c. \<not> is_tab_or_newline c)
       (rev (dropWhile is_c0_or_space (rev (dropWhile is_c0_or_space s))))"

fun scheme_state :: "string \<Rightarrow> string \<Rightarrow> (string \<times> string) option" where
  \<comment> \<open>the buffer and the input left; the result is the scheme and the input after
      its colon, or \<open>None\<close> where the parser falls to the no-scheme state, which
      fails for want of a base URL\<close>
  "scheme_state buffer [] = None"
| "scheme_state buffer (c # rest) =
     (if is_ascii_alpha c \<or> is_digit c \<or> one_of ''+-.'' c
      then scheme_state (buffer @ [ascii_lower c]) rest
      else if c = CHR '':'' then Some (buffer, rest)
      else None)"

definition scheme_start_state :: "string \<Rightarrow> (string \<times> string) option" where
  "scheme_start_state s =
     (case s of
        [] \<Rightarrow> None
      | c # rest \<Rightarrow> if is_ascii_alpha c then scheme_state [ascii_lower c] rest else None)"

definition new_URL :: "url_rest \<Rightarrow> string \<Rightarrow> bool" where
  \<comment> \<open>whether \<open>new URL(s)\<close> returns (it throws a TypeError otherwise)\<close>
  "new_URL after_scheme s =
     (case scheme_start_state (url_input s) of
        None \<Rightarrow> False
      | Some (scheme, rest) \<Rightarrow> after_scheme scheme rest)"

subsection \<open>The URL parser after the scheme\<close>

text \<open>
  The states of the URL parser after the scheme, for an input with no base URL, as far
  as they decide whether the parser returns a URL or failure: the authority with its
  credentials, the host and the port, and the host of a \<open>file\<close> URL. The states for the
  path, the query and the fragment never fail. The host parser is embedded with the
  parsers of IPv4 and IPv6 addresses and of opaque hosts. One step is a parameter:
  the Unicode processing of a domain (UTS 46) that has a character outside ASCII, a
  percent-encoded byte outside ASCII, or a label that starts with \<open>xn--\<close>; on every
  other domain that step is ASCII lowercasing, and the parameter is not used.
\<close>

type_synonym idna = "string \<Rightarrow> string option"

definition is_special :: "string \<Rightarrow> bool" where
  "is_special scheme = (scheme \<in> set [''ftp'', ''file'', ''http'', ''https'', ''ws'', ''wss''])"

definition is_slash :: "char \<Rightarrow> bool" where
  \<comment> \<open>U+002F (/) or U+005C, the backslash\<close>
  "is_slash c = (c = CHR ''/'' \<or> c = CHR 0x5C)"

definition ends_authority :: "bool \<Rightarrow> char \<Rightarrow> bool" where
  \<comment> \<open>the code points that end the authority, the host or the port: \<open>/\<close>, \<open>?\<close> and
      \<open>#\<close>, and the backslash in a URL with a special scheme\<close>
  "ends_authority special c = (one_of ''/?#'' c \<or> special \<and> c = CHR 0x5C)"

definition forbidden_host_code_point :: "char \<Rightarrow> bool" where
  "forbidden_host_code_point c =
     (of_char c \<in> {0, 9, 10, 13, 32 :: int} \<or> one_of ''#/:<>?@[]^|'' c \<or> c = CHR 0x5C)"

definition forbidden_domain_code_point :: "char \<Rightarrow> bool" where
  \<comment> \<open>a forbidden host code point, a C0 control, \<open>%\<close> or U+007F\<close>
  "forbidden_domain_code_point c =
     (forbidden_host_code_point c \<or> (of_char c :: int) \<le> 31 \<or> c = CHR ''%''
      \<or> (of_char c :: int) = 127)"

fun percent_decode :: "string \<Rightarrow> string" where
  "percent_decode (c # h # l # rest) =
     (if c = CHR ''%'' \<and> is_digit_of 16 h \<and> is_digit_of 16 l
      then char_of (16 * digit_value h + digit_value l) # percent_decode rest
      else c # percent_decode (h # l # rest))"
| "percent_decode s = s"

definition ipv4_number :: "string \<Rightarrow> int option" where
  \<comment> \<open>the IPv4 number parser: hexadecimal after \<open>0x\<close>, octal after \<open>0\<close>, decimal
      otherwise\<close>
  "ipv4_number part =
     (if part = [] then None
      else
        let (digits, R) =
              (if 2 \<le> length part \<and> (take 2 part = ''0x'' \<or> take 2 part = ''0X'')
               then (drop 2 part, 16)
               else if 2 \<le> length part \<and> hd part = CHR ''0'' then (tl part, 8)
               else (part, 10))
        in if digits = [] then Some 0
           else if list_all (is_digit_of R) digits then Some (digits_value R digits)
           else None)"

definition ends_in_number :: "string \<Rightarrow> bool" where
  "ends_in_number input =
     (let parts = split CHR ''.'' input in
      if last parts = [] \<and> length parts = 1 then False
      else
        let parts = (if last parts = [] then butlast parts else parts);
            l = last parts
        in l \<noteq> [] \<and> list_all is_digit l \<or> ipv4_number l \<noteq> None)"

definition ipv4_parser :: "string \<Rightarrow> bool" where
  \<comment> \<open>whether the IPv4 parser returns an address: at most four parts, each a number,
      all but the last at most 255 and the last within the bytes that are left\<close>
  "ipv4_parser input =
     (let parts = split CHR ''.'' input;
          parts = (if last parts = [] \<and> 1 < length parts then butlast parts else parts)
      in if 4 < length parts then False
         else
           (case those (map ipv4_number parts) of
              None \<Rightarrow> False
            | Some numbers \<Rightarrow>
                list_all (\<lambda>n. n \<le> 255) (butlast numbers)
                \<and> last numbers < 256 ^ (5 - length numbers)))"

definition ipv4_in_ipv6 :: "string \<Rightarrow> bool" where
  \<comment> \<open>the end of an IPv6 address in the syntax of IPv4: four decimal numbers up to
      255 with no leading zero, with dots between them, up to the end of the input\<close>
  "ipv4_in_ipv6 s =
     (let parts = split CHR ''.'' s
      in length parts = 4
         \<and> list_all (\<lambda>p. p \<noteq> [] \<and> list_all is_digit p
                          \<and> (if hd p = CHR ''0'' then length p = 1 else True)
                          \<and> digits_value 10 p \<le> 255) parts)"

function ipv6_pieces :: "nat \<Rightarrow> bool \<Rightarrow> string \<Rightarrow> bool" where
  \<comment> \<open>the loop of the IPv6 parser, with the index of the piece to write and whether
      the address holds a compression \<open>::\<close> already\<close>
  "ipv6_pieces pieceIndex compress s =
     (if s = [] then compress \<or> pieceIndex = 8
      else if pieceIndex = 8 then False
      else if hd s = CHR '':''
      then (if compress then False else ipv6_pieces (pieceIndex + 1) True (tl s))
      else
        let n = length (takeWhile (is_digit_of 16) (take 4 s));
            r = drop n s
        in if r = [] then compress \<or> pieceIndex + 1 = 8
           else if hd r = CHR ''.''
           then (if n = 0 \<or> 6 < pieceIndex then False
                 else ipv4_in_ipv6 s \<and> (compress \<or> pieceIndex + 2 = 8))
           else if hd r = CHR '':''
           then (if tl r = [] then False else ipv6_pieces (pieceIndex + 1) compress (tl r))
           else False)"
  by pat_completeness auto
termination
  by (relation "measure (\<lambda>(pieceIndex, compress, s). length s)") auto

declare ipv6_pieces.simps [simp del]

definition ipv6_parser :: "string \<Rightarrow> bool" where
  "ipv6_parser input =
     (case input of
        [] \<Rightarrow> ipv6_pieces 0 False []
      | c # rest \<Rightarrow>
          if c = CHR '':''
          then (case rest of
                  [] \<Rightarrow> False
                | c' # rest' \<Rightarrow> if c' = CHR '':'' then ipv6_pieces 1 True rest' else False)
          else ipv6_pieces 0 False input)"

definition needs_idna :: "string \<Rightarrow> bool" where
  "needs_idna domain =
     (list_ex (\<lambda>c. 128 \<le> (of_char c :: int)) domain
      \<or> list_ex (\<lambda>label. map ascii_lower (take 4 label) = ''xn--'') (split CHR ''.'' domain))"

definition domain_to_ASCII :: "idna \<Rightarrow> string \<Rightarrow> string option" where
  \<comment> \<open>the input percent-decoded, and then the domain to ASCII\<close>
  "domain_to_ASCII I input =
     (let domain = percent_decode input
      in if needs_idna domain then I input else Some (map ascii_lower domain))"

definition host_parser :: "idna \<Rightarrow> bool \<Rightarrow> string \<Rightarrow> bool" where
  \<comment> \<open>whether the host parser returns a host\<close>
  "host_parser I isOpaque input =
     (if input \<noteq> [] \<and> hd input = CHR ''[''
      then last input = CHR '']'' \<and> ipv6_parser (butlast (tl input))
      else if isOpaque then \<not> list_ex forbidden_host_code_point input
      else
        (case domain_to_ASCII I input of
           None \<Rightarrow> False
         | Some asciiDomain \<Rightarrow>
             asciiDomain \<noteq> [] \<and> \<not> list_ex forbidden_domain_code_point asciiDomain
             \<and> (if ends_in_number asciiDomain then ipv4_parser asciiDomain else True)))"

definition port_in_range :: "string \<Rightarrow> bool" where
  "port_in_range buffer = (buffer = [] \<or> digits_value 10 buffer \<le> 65535)"

fun port_state :: "bool \<Rightarrow> string \<Rightarrow> string \<Rightarrow> bool" where
  "port_state special buffer [] = port_in_range buffer"
| "port_state special buffer (c # rest) =
     (if is_digit c then port_state special (buffer @ [c]) rest
      else if ends_authority special c then port_in_range buffer
      else False)"

fun host_state :: "idna \<Rightarrow> bool \<Rightarrow> bool \<Rightarrow> string \<Rightarrow> string \<Rightarrow> bool" where
  \<comment> \<open>with whether the pointer is inside brackets, and the buffer\<close>
  "host_state I special insideBrackets buffer [] =
     (if special \<and> buffer = [] then False else host_parser I (\<not> special) buffer)"
| "host_state I special insideBrackets buffer (c # rest) =
     (if c = CHR '':'' \<and> \<not> insideBrackets
      then (if buffer = [] then False
            else host_parser I (\<not> special) buffer \<and> port_state special [] rest)
      else if ends_authority special c
      then (if special \<and> buffer = [] then False else host_parser I (\<not> special) buffer)
      else host_state I special
             (if c = CHR ''['' then True else if c = CHR '']'' then False else insideBrackets)
             (buffer @ [c]) rest)"

fun authority_state :: "idna \<Rightarrow> bool \<Rightarrow> bool \<Rightarrow> string \<Rightarrow> string \<Rightarrow> bool" where
  \<comment> \<open>with whether an \<open>@\<close> was seen, and the buffer; at the end of the authority the
      parser goes back to the start of the buffer, in the host state\<close>
  "authority_state I special atSignSeen buffer [] =
     (if atSignSeen \<and> buffer = [] then False else host_state I special False [] buffer)"
| "authority_state I special atSignSeen buffer (c # rest) =
     (if c = CHR ''@'' then authority_state I special True [] rest
      else if ends_authority special c
      then (if atSignSeen \<and> buffer = [] then False
            else host_state I special False [] (buffer @ c # rest))
      else authority_state I special atSignSeen (buffer @ [c]) rest)"

fun special_authority_ignore_slashes_state :: "idna \<Rightarrow> string \<Rightarrow> bool" where
  "special_authority_ignore_slashes_state I [] = authority_state I True False [] []"
| "special_authority_ignore_slashes_state I (c # rest) =
     (if is_slash c then special_authority_ignore_slashes_state I rest
      else authority_state I True False [] (c # rest))"

definition special_authority_slashes_state :: "idna \<Rightarrow> string \<Rightarrow> bool" where
  "special_authority_slashes_state I input =
     (if take 2 input = ''//'' then special_authority_ignore_slashes_state I (drop 2 input)
      else special_authority_ignore_slashes_state I input)"

definition path_or_authority_state :: "idna \<Rightarrow> string \<Rightarrow> bool" where
  \<comment> \<open>a scheme that is not special, after \<open>:/\<close>: a second slash starts an authority,
      anything else a path\<close>
  "path_or_authority_state I input =
     (case input of
        [] \<Rightarrow> True
      | c # rest \<Rightarrow> if c = CHR ''/'' then authority_state I False False [] rest else True)"

definition is_windows_drive_letter :: "string \<Rightarrow> bool" where
  "is_windows_drive_letter s =
     (case s of [a, b] \<Rightarrow> is_ascii_alpha a \<and> one_of '':|'' b | _ \<Rightarrow> False)"

fun file_host_state :: "idna \<Rightarrow> string \<Rightarrow> string \<Rightarrow> bool" where
  "file_host_state I buffer [] =
     (if is_windows_drive_letter buffer \<or> buffer = [] then True
      else host_parser I False buffer)"
| "file_host_state I buffer (c # rest) =
     (if is_slash c \<or> one_of ''?#'' c
      then (if is_windows_drive_letter buffer \<or> buffer = [] then True
            else host_parser I False buffer)
      else file_host_state I (buffer @ [c]) rest)"

definition file_slash_state :: "idna \<Rightarrow> string \<Rightarrow> bool" where
  "file_slash_state I input =
     (case input of
        [] \<Rightarrow> True
      | c # rest \<Rightarrow> if is_slash c then file_host_state I [] rest else True)"

definition file_state :: "idna \<Rightarrow> string \<Rightarrow> bool" where
  "file_state I input =
     (case input of
        [] \<Rightarrow> True
      | c # rest \<Rightarrow> if is_slash c then file_slash_state I rest else True)"

definition parse_after_scheme :: "idna \<Rightarrow> url_rest" where
  \<comment> \<open>the scheme state at the colon, and what follows: whether the parser returns a
      URL for the scheme it has read (in lower case) and the input after the colon\<close>
  "parse_after_scheme I scheme rest =
     (if scheme = ''file'' then file_state I rest
      else if is_special scheme then special_authority_slashes_state I rest
      else
        (case rest of
           [] \<Rightarrow> True
         | c # rest' \<Rightarrow> if c = CHR ''/'' then path_or_authority_state I rest' else True))"

definition URL_constructor :: "idna \<Rightarrow> string \<Rightarrow> bool" where
  \<comment> \<open>\<open>new URL(s)\<close> returns\<close>
  "URL_constructor I s = new_URL (parse_after_scheme I) s"

subsection \<open>Parsing a value with a schema\<close>

datatype path_key = Key string | Index nat

datatype issue_code = invalid_type | invalid_string string_check

datatype issue = Issue "path_key list" issue_code

definition under :: "path_key \<Rightarrow> issue list \<Rightarrow> issue list" where
  \<comment> \<open>the issues of a property or an element, with its key put before their paths\<close>
  "under k = map (\<lambda>i. case i of Issue path code \<Rightarrow> Issue (k # path) code)"

fun check_issues :: "url_rest \<Rightarrow> string \<Rightarrow> string_check \<Rightarrow> issue list" where
  "check_issues U s date = (if dateRegex s then [] else [Issue [] (invalid_string date)])"
| "check_issues U s url = (if new_URL U s then [] else [Issue [] (invalid_string url)])"

fun issues :: "url_rest \<Rightarrow> schema \<Rightarrow> jsval \<Rightarrow> issue list"
  and issues_items :: "url_rest \<Rightarrow> schema \<Rightarrow> nat \<Rightarrow> jsval list \<Rightarrow> issue list"
  and issues_shape :: "url_rest \<Rightarrow> (string \<times> schema) list \<Rightarrow> (string \<times> jsval) list \<Rightarrow> issue list"
where
  "issues U (z_string checks) v =
     (case v of
        JStr s \<Rightarrow> concat (map (check_issues U s) checks)
      | _ \<Rightarrow> [Issue [] invalid_type])"
| "issues U z_number v =
     (case v of
        JNum n \<Rightarrow> if n = NaN then [Issue [] invalid_type] else []
      | _ \<Rightarrow> [Issue [] invalid_type])"
| "issues U (z_array item) v =
     (case v of
        JArr xs \<Rightarrow> issues_items U item 0 xs
      | _ \<Rightarrow> [Issue [] invalid_type])"
| "issues U (z_object shape) v =
     (case v of
        JObj props \<Rightarrow> issues_shape U shape props
      | _ \<Rightarrow> [Issue [] invalid_type])"
| "issues_items U item i [] = []"
| "issues_items U item i (x # xs) =
     under (Index i) (issues U item x) @ issues_items U item (Suc i) xs"
| "issues_shape U [] props = []"
| "issues_shape U ((k, s) # shape) props =
     under (Key k) (issues U s (get props k)) @ issues_shape U shape props"

fun parsed :: "schema \<Rightarrow> jsval \<Rightarrow> jsval"
  and parsed_shape :: "(string \<times> schema) list \<Rightarrow> (string \<times> jsval) list \<Rightarrow> (string \<times> jsval) list"
where
  "parsed (z_string checks) v = v"
| "parsed z_number v = v"
| "parsed (z_array item) v =
     (case v of JArr xs \<Rightarrow> JArr (map (parsed item) xs) | _ \<Rightarrow> v)"
| "parsed (z_object shape) v =
     (case v of JObj props \<Rightarrow> JObj (parsed_shape shape props) | _ \<Rightarrow> v)"
| "parsed_shape [] props = []"
| "parsed_shape ((k, s) # shape) props = (k, parsed s (get props k)) # parsed_shape shape props"

definition safeParse :: "url_rest \<Rightarrow> schema \<Rightarrow> jsval \<Rightarrow> issue list + jsval" where
  \<comment> \<open>the data the schema gives back (an object keeps the properties of its shape and
      no other), or the issues found, one at least\<close>
  "safeParse U s v = (if issues U s v = [] then Inr (parsed s v) else Inl (issues U s v))"

subsection \<open>Loading a collection\<close>

text \<open>
  Modelled from the spec: the loaders \<open>glob\<close> and \<open>file\<close> of the site generator, which
  read the source of a collection and validate its records, are not part of the
  repository. The spec says of them: ``each file is read, its structured header parsed,
  and the schema applied''; ``the file is parsed once and every array element
  validated; any element failure raises an error identifying the element's position'';
  ``validation failure is fatal to loading that collection (not per-record skip)'';
  ``missing/unreadable source files: surfaced as a load-time failure identifying the
  missing path; no partial collection is returned''.

  The environment of a load says what each loader finds at its source: the records
  parsed from it, in their order, or nothing where the source is missing or unreadable.
\<close>

type_synonym sources = "loader \<Rightarrow> jsval list option"

datatype load_error = SourceMissing loader | InvalidEntry nat "issue list"

fun load_from :: "url_rest \<Rightarrow> schema \<Rightarrow> nat \<Rightarrow> jsval list \<Rightarrow> load_error + jsval list" where
  "load_from U s i [] = Inr []"
| "load_from U s i (raw # raws) =
     (case safeParse U s raw of
        Inl found \<Rightarrow> Inl (InvalidEntry i found)
      | Inr entry \<Rightarrow>
          (case load_from U s (Suc i) raws of
             Inl e \<Rightarrow> Inl e
           | Inr entries \<Rightarrow> Inr (entry # entries)))"

definition load :: "url_rest \<Rightarrow> sources \<Rightarrow> collection \<Rightarrow> load_error + jsval list" where
  "load U src c =
     (case src (loader c) of
        None \<Rightarrow> Inl (SourceMissing (loader c))
      | Some raws \<Rightarrow> load_from U (schema c) 0 raws)"

subsection \<open>Notions for the statements about the collections\<close>

definition is_text :: "jsval \<Rightarrow> bool" where
  "is_text v = (case v of JStr s \<Rightarrow> True | _ \<Rightarrow> False)"

definition is_text_sequence :: "jsval \<Rightarrow> bool" where
  "is_text_sequence v = (case v of JArr xs \<Rightarrow> list_all is_text xs | _ \<Rightarrow> False)"

definition is_numeric :: "jsval \<Rightarrow> bool" where
  \<comment> \<open>a Number other than \<open>NaN\<close>\<close>
  "is_numeric v = (case v of JNum n \<Rightarrow> n \<noteq> NaN | _ \<Rightarrow> False)"

definition is_url :: "url_rest \<Rightarrow> jsval \<Rightarrow> bool" where
  \<comment> \<open>a string that the URL parser accepts\<close>
  "is_url U v = (case v of JStr s \<Rightarrow> new_URL U s | _ \<Rightarrow> False)"

definition is_date_text :: "jsval \<Rightarrow> bool" where
  \<comment> \<open>a string in the form \<open>YYYY-MM-DD\<close> that denotes a date of the calendar\<close>
  "is_date_text v = (case v of JStr s \<Rightarrow> is_calendar_date s | _ \<Rightarrow> False)"

definition project_fields :: "string list" where
  "project_fields = [''id'', ''title'', ''description'', ''imagePath'', ''repo'', ''live'']"

definition well_formed_project :: "url_rest \<Rightarrow> jsval \<Rightarrow> bool" where
  "well_formed_project U v =
     (case v of
        JObj props \<Rightarrow>
          is_numeric (get props ''id'') \<and> is_text (get props ''title'')
          \<and> is_text (get props ''description'') \<and> is_text (get props ''imagePath'')
          \<and> is_url U (get props ''repo'') \<and> is_url U (get props ''live'')
      | _ \<Rightarrow> False)"

definition field :: "jsval \<Rightarrow> string \<Rightarrow> jsval" where
  \<comment> \<open>reading a property of a value\<close>
  "field v k = (case v of JObj props \<Rightarrow> get props k | _ \<Rightarrow> JUndefined)"

definition any_rest :: url_rest where
  \<comment> \<open>a URL parser that accepts whatever follows a scheme\<close>
  "any_rest scheme rest = True"

subsection \<open>Notions for the statements about URLs\<close>

text \<open>
  The syntax of an absolute URL as the standards write it (RFC 3986: a scheme, a
  colon, and what the scheme asks for, in the characters of URIs), stated on the
  string and not by the states of the parser.
\<close>

definition scheme_char :: "char \<Rightarrow> bool" where
  "scheme_char c = (is_ascii_alpha c \<or> is_digit c \<or> one_of ''+-.'' c)"

definition is_scheme :: "string \<Rightarrow> bool" where
  \<comment> \<open>a letter, then letters, digits, \<open>+\<close>, \<open>-\<close> and \<open>.\<close>\<close>
  "is_scheme p = (p \<noteq> [] \<and> is_ascii_alpha (hd p) \<and> list_all scheme_char p)"

definition before_colon :: "string \<Rightarrow> string" where
  "before_colon s = takeWhile (\<lambda>c. c \<noteq> CHR '':'') s"

definition after_colon :: "string \<Rightarrow> string" where
  "after_colon s = tl (dropWhile (\<lambda>c. c \<noteq> CHR '':'') s)"

definition has_scheme :: "string \<Rightarrow> bool" where
  \<comment> \<open>the string has a colon, and what stands before its first colon is a scheme\<close>
  "has_scheme s = (CHR '':'' \<in> set s \<and> is_scheme (before_colon s))"







section \<open>Rounding and \<open>Number\<close> on digits\<close>

lemma bitlen_pos: "0 < n \<Longrightarrow> 1 \<le> bitlen n \<and> 2 ^ nat (bitlen n - 1) \<le> n \<and> n < 2 ^ nat (bitlen n)"
proof (induction n rule: bitlen.induct)
  case (1 n)
  show ?case
  proof (cases "n = 1")
    case True
    have "bitlen 1 = 1" by (simp add: bitlen.simps [of 1] bitlen.simps [of 0])
    then show ?thesis using True by simp
  next
    case False
    with "1.prems" have h: "0 < n div 2" by simp
    from "1.prems" have n: "\<not> n \<le> 0" by simp
    from "1.IH" [OF n h] have ih: "1 \<le> bitlen (n div 2)" "2 ^ nat (bitlen (n div 2) - 1) \<le> n div 2"
      "n div 2 < 2 ^ nat (bitlen (n div 2))" by simp_all
    have b: "bitlen n = 1 + bitlen (n div 2)" using n by (simp add: bitlen.simps [of n])
    have e1: "nat (bitlen n - 1) = Suc (nat (bitlen (n div 2) - 1))" using b ih(1) by simp
    have e2: "nat (bitlen n) = Suc (nat (bitlen (n div 2)))" using b ih(1) by simp
    have "2 * 2 ^ nat (bitlen (n div 2) - 1) \<le> n" using ih(2) by linarith
    moreover have "n < 2 * 2 ^ nat (bitlen (n div 2))" using ih(3) by linarith
    ultimately show ?thesis unfolding e1 e2 using b ih(1) by simp
  qed
qed

lemma pow_nonneg: "0 \<le> e \<Longrightarrow> pow b e = of_int (b ^ nat e)"
  by (simp add: pow_def)

lemma round_half_even_int: "round_half_even (of_int j) = j"
  by (simp add: round_half_even_def Let_def)

lemma floor_log2_int: "0 < k \<Longrightarrow> floor_log2 (of_int k) = bitlen k - 1"
proof -
  assume k: "0 < k"
  have one: "bitlen 1 = 1" by (simp add: bitlen.simps [of 1] bitlen.simps [of 0])
  from bitlen_pos [OF k] have b: "1 \<le> bitlen k" "2 ^ nat (bitlen k - 1) \<le> k" by simp_all
  have "pow 2 (bitlen k - 1) = of_int (2 ^ nat (bitlen k - 1))" using b(1) by (simp add: pow_nonneg)
  also have "\<dots> \<le> of_int k" using b(2) by (simp only: of_int_le_iff)
  finally show ?thesis by (simp add: floor_log2_def Let_def one)
qed

lemma round_double_int:
  assumes "\<bar>k\<bar> < 2 ^ 53"
  shows "round_double (of_int k) = Val (of_int k)"
proof (cases "k = 0")
  case True
  then show ?thesis by (simp add: round_double_def)
next
  case False
  define a where "a = \<bar>k\<bar>"
  have a: "0 < a" "a < 2 ^ 53" using False assms by (simp_all add: a_def)
  define e where "e = bitlen a - 1"
  from bitlen_pos [OF a(1)] have b: "0 \<le> e" "2 ^ nat e \<le> a" by (simp_all add: e_def)
  have "(2::int) ^ nat e < 2 ^ 53" using b(2) a(2) by linarith
  then have "nat e < 53" by (simp only: power_strict_increasing_iff) 
  then have e52: "e \<le> 52" using b(1) by linarith
  have fl: "floor_log2 (of_int a) = e" using floor_log2_int [OF a(1)] by (simp add: e_def)
  have m: "max e (- 1022) = e" using b(1) by simp
  have ulp: "pow 2 (e - 52) = 1 / of_int (2 ^ nat (52 - e))"
    using e52 by (cases "e = 52") (simp_all add: pow_def)
  have q: "(of_int a :: rat) / pow 2 (e - 52) = of_int (a * 2 ^ nat (52 - e))"
    by (simp add: ulp)
  have v: "of_int (round_half_even (of_int a / pow 2 (e - 52))) * pow 2 (e - 52) = (of_int a :: rat)"
    unfolding q round_half_even_int by (simp add: ulp)
  have big: "\<not> pow 2 1024 \<le> (of_int a :: rat)"
  proof -
    have "a < 2 ^ 1024" using a(2) by simp
    then have "(of_int a :: rat) < of_int (2 ^ 1024)" by (simp only: of_int_less_iff)
    then show ?thesis by (simp add: pow_def)
  qed
  have ra: "0 < (of_int a :: rat)" using a(1) by simp
  show ?thesis
  proof (cases "0 < k")
    case True
    then have "k = a" by (simp add: a_def)
    then show ?thesis using ra big by (simp add: round_double_def Let_def fl m v)
  next
    case False
    then have "of_int k = - (of_int a :: rat)" by (simp add: a_def)
    then show ?thesis using ra big by (simp add: round_double_def Let_def fl m v)
  qed
qed

lemma char_eq_of_code: "(of_char c :: int) = n \<Longrightarrow> c = char_of n"
  by (metis char_of_char)

lemma is_digit_iff: "is_digit c \<longleftrightarrow> c \<in> set ''0123456789''"
proof
  assume "is_digit c"
  then have r: "48 \<le> (of_char c :: int)" "(of_char c :: int) \<le> 57"
    by (auto simp add: is_digit_of_def digit_value_def Let_def split: if_splits)
  then have "(of_char c :: int) = 48 \<or> (of_char c :: int) = 49 \<or> (of_char c :: int) = 50
     \<or> (of_char c :: int) = 51 \<or> (of_char c :: int) = 52 \<or> (of_char c :: int) = 53
     \<or> (of_char c :: int) = 54 \<or> (of_char c :: int) = 55 \<or> (of_char c :: int) = 56
     \<or> (of_char c :: int) = 57" by arith
  then show "c \<in> set ''0123456789''"
    by (elim disjE) (drule char_eq_of_code, simp add: char_of_def)+
next
  assume "c \<in> set ''0123456789''"
  then show "is_digit c" by (auto simp add: is_digit_of_def digit_value_def)
qed

lemma split_no_sep: "sep \<notin> set s \<Longrightarrow> split sep s = [s]"
  by (induction s) auto

lemma split_append: "sep \<notin> set a \<Longrightarrow> split sep (a @ sep # b) = a # split sep b"
  by (induction a) auto

lemma digit_not_hyphen: "is_digit c \<Longrightarrow> c \<noteq> CHR ''-''"
  by (auto simp add: is_digit_iff)

lemma digit_not_white_space: "is_digit c \<Longrightarrow> \<not> is_white_space c"
  by (auto simp add: is_digit_iff is_white_space_def)

lemma digit_value_nonneg: "0 \<le> digit_value c"
  by (simp add: digit_value_def Let_def)

lemma digits_value_snoc: "digits_value b (ds @ [c]) = b * digits_value b ds + digit_value c"
  by (simp add: digits_value_def)

lemma digits_value_bounds:
  "list_all is_digit ds \<Longrightarrow> 0 \<le> digits_value 10 ds \<and> digits_value 10 ds < 10 ^ length ds"
proof (induction ds rule: rev_induct)
  case Nil
  then show ?case by (simp add: digits_value_def)
next
  case (snoc c ds)
  then have "0 \<le> digits_value 10 ds" "digits_value 10 ds + 1 \<le> 10 ^ length ds" by simp_all
  moreover have "0 \<le> digit_value c" "digit_value c \<le> 9"
    using snoc.prems by (simp_all add: digit_value_nonneg is_digit_of_def)
  ultimately show ?case unfolding digits_value_snoc by simp
qed

lemma trim_digits: "list_all is_digit ds \<Longrightarrow> trim ds = ds"
proof (cases ds)
  case Nil
  then show ?thesis by (simp add: trim_def)
next
  case (Cons c cs)
  assume d: "list_all is_digit ds"
  have ne: "ds \<noteq> []" using Cons by simp
  then have "hd ds \<in> set ds" "last ds \<in> set ds" by simp_all
  then have w: "\<not> is_white_space (hd ds)" "\<not> is_white_space (last ds)"
    using d by (auto simp add: list_all_iff digit_not_white_space)
  have "dropWhile is_white_space ds = ds" using w(1) by (simp add: dropWhile_eq_self_iff)
  moreover have "dropWhile is_white_space (rev ds) = rev ds"
    using w(2) ne by (simp add: dropWhile_eq_self_iff hd_rev)
  ultimately show ?thesis by (simp add: trim_def)
qed

lemma non_decimal_digits: "list_all is_digit ds \<Longrightarrow> non_decimal ds = None"
proof -
  assume d: "list_all is_digit ds"
  have z: "\<And>cs. cs \<noteq> [] \<Longrightarrow> \<not> list_all (is_digit_of 0) cs"
    using digit_value_nonneg by (case_tac cs) (auto simp add: is_digit_of_def not_less)
  show ?thesis
  proof (cases ds)
    case Nil
    then show ?thesis by (simp add: non_decimal_def)
  next
    case (Cons a as)
    show ?thesis
    proof (cases as)
      case Nil
      then show ?thesis using Cons by (simp add: non_decimal_def)
    next
      case (Cons p rest)
      with d \<open>ds = a # as\<close> have "is_digit p" by simp
      then have "p \<in> set ''0123456789''" by (simp add: is_digit_iff)
      then have "(if p = CHR ''x'' \<or> p = CHR ''X'' then 16
                       else if p = CHR ''o'' \<or> p = CHR ''O'' then 8
                       else if p = CHR ''b'' \<or> p = CHR ''B'' then 2 else 0) = (0::int)" by auto
      then show ?thesis using Cons \<open>ds = a # as\<close> z [of rest]
        by (auto simp add: non_decimal_def Let_def)
    qed
  qed
qed

lemma unsigned_decimal_digits:
  "ds \<noteq> [] \<Longrightarrow> list_all is_digit ds \<Longrightarrow> unsigned_decimal ds = Some (of_int (digits_value 10 ds))"
proof -
  assume n: "ds \<noteq> []" and d: "list_all is_digit ds"
  have t: "takeWhile is_digit ds = ds" using d by (simp add: takeWhile_eq_all_conv list_all_iff)
  have r: "dropWhile is_digit ds = []" using d by (simp add: list_all_iff)
  show ?thesis using n by (simp add: unsigned_decimal_def Let_def t r exponent_part_def pow_def)
qed

lemma Number_digits:
  assumes "ds \<noteq> []" "list_all is_digit ds" "digits_value 10 ds < 2 ^ 53"
  shows "Number ds = Val (of_int (digits_value 10 ds))"
proof -
  have h: "is_digit (hd ds)" using assms(1,2) by (cases ds) simp_all
  then have "hd ds \<in> set ''0123456789''" by (simp add: is_digit_iff)
  then have s: "hd ds \<noteq> CHR ''+''" "hd ds \<noteq> CHR ''-''" "hd ds \<noteq> CHR ''I''" by auto
  then have i: "ds \<noteq> ''Infinity''" by auto
  have b: "\<bar>digits_value 10 ds\<bar> < 2 ^ 53"
    using digits_value_bounds [OF assms(2)] assms(3) by simp
  show ?thesis
    using assms(1) s(1,2) i
    by (simp add: Number_def StringToNumber_def Let_def trim_digits [OF assms(2)]
        non_decimal_digits [OF assms(2)] unsigned_decimal_digits [OF assms(1,2)]
        round_double_int [OF b])
qed

lemma trunc_int: "trunc (of_int k) = k"
  by (simp add: trunc_def)

lemma subtract_int:
  "\<bar>m - 1\<bar> < 2 ^ 53 \<Longrightarrow> subtract (Val (of_int m)) (Val 1) = Val (of_int (m - 1))"
  using round_double_int [of "m - 1"] by (simp add: subtract_def)

section \<open>Years, months and days of a time value\<close>

lemma div_shift: "0 < k \<Longrightarrow> (y - k * j) div k = y div k - j" for y k j :: int
proof -
  assume k: "0 < k"
  have "y - k * j = k * (y div k - j) + y mod k"
    by (simp add: algebra_simps)
  then show ?thesis by (rule int_div_pos_eq) (use k in simp_all)
qed

lemma div_pred: "0 < k \<Longrightarrow> (y - 1) div k = y div k - (if y mod k = 0 then 1 else 0)" for y k :: int
proof (cases "y mod k = 0")
  case True
  assume k: "0 < k"
  have "y = k * (y div k) + y mod k" by simp
  with True have "y - 1 = k * (y div k - 1) + (k - 1)" by (simp add: algebra_simps)
  then have "(y - 1) div k = y div k - 1" by (rule int_div_pos_eq) (use k in simp_all)
  with True show ?thesis by simp
next
  case False
  assume k: "0 < k"
  have "0 \<le> y mod k" using k by simp
  with False have r: "0 \<le> y mod k - 1" by simp
  have b: "y mod k - 1 < k" using pos_mod_bound [OF k, of y] by simp
  have "y - 1 = k * (y div k) + (y mod k - 1)" by (simp add: algebra_simps)
  then have "(y - 1) div k = y div k" by (rule int_div_pos_eq) (use r b in simp_all)
  with False show ?thesis by simp
qed

lemma DayFromYear_alt:
  "DayFromYear y = 365 * (y - 1970) + (y - 1) div 4 - (y - 1) div 100 + (y - 1) div 400 - 477"
proof -
  have a: "(y - 1969) div 4 = (y - 1) div 4 - 492" using div_shift [of 4 "y - 1" 492] by simp
  have b: "(y - 1901) div 100 = (y - 1) div 100 - 19" using div_shift [of 100 "y - 1" 19] by simp
  have c: "(y - 1601) div 400 = (y - 1) div 400 - 4" using div_shift [of 400 "y - 1" 4] by simp
  show ?thesis unfolding DayFromYear_def a b c by simp
qed

lemma mod_100_4: "y mod 100 = 0 \<Longrightarrow> y mod 4 = 0" for y :: int
  using mod_mod_cancel [of 4 100 y] by simp

lemma mod_400_100: "y mod 400 = 0 \<Longrightarrow> y mod 100 = 0" for y :: int
  using mod_mod_cancel [of 100 400 y] by simp

lemma DayFromYear_Suc: "DayFromYear (y + 1) = DayFromYear y + DaysInYear y"
proof -
  have a: "(y - 1) div 4 = y div 4 - (if y mod 4 = 0 then 1 else 0)" by (rule div_pred) simp
  have b: "(y - 1) div 100 = y div 100 - (if y mod 100 = 0 then 1 else 0)" by (rule div_pred) simp
  have c: "(y - 1) div 400 = y div 400 - (if y mod 400 = 0 then 1 else 0)" by (rule div_pred) simp
  show ?thesis
    unfolding DayFromYear_alt [of "y + 1"] DayFromYear_alt [of y] DaysInYear_def
    using mod_100_4 [of y] mod_400_100 [of y] by (simp add: a b c)
qed

lemma DaysInYear_bounds: "365 \<le> DaysInYear y \<and> DaysInYear y \<le> 366"
  by (simp add: DaysInYear_def)

lemma DayFromYear_mono: "y \<le> z \<Longrightarrow> DayFromYear y \<le> DayFromYear z"
proof (induction "nat (z - y)" arbitrary: z)
  case 0
  then show ?case by simp
next
  case (Suc n)
  then have "n = nat ((z - 1) - y)" "y \<le> z - 1" by simp_all
  then have "DayFromYear y \<le> DayFromYear (z - 1)" using Suc.hyps(1) by blast
  moreover have "DayFromYear z = DayFromYear (z - 1) + DaysInYear (z - 1)"
    using DayFromYear_Suc [of "z - 1"] by simp
  ultimately show ?case using DaysInYear_bounds [of "z - 1"] by linarith
qed

lemma DayFromYear_strict: "y < z \<Longrightarrow> DayFromYear y < DayFromYear z"
proof -
  assume "y < z"
  then have "DayFromYear (y + 1) \<le> DayFromYear z" by (intro DayFromYear_mono) simp
  then show ?thesis using DayFromYear_Suc [of y] DaysInYear_bounds [of y] by linarith
qed

text \<open>400 * DayFromYear y is within 600 of 146097 * (y - 1970)\<close>
lemma DayFromYear_estimate:
  "146097 * (y - 1970) - 600 < 400 * DayFromYear y \<and> 400 * DayFromYear y < 146097 * (y - 1970) + 600"
proof -
  define x where "x = y - 1"
  define q4 where "q4 = x div 4"
  define q100 where "q100 = x div 100"
  define q400 where "q400 = x div 400"
  define r4 where "r4 = x mod 4"
  define r100 where "r100 = x mod 100"
  define r400 where "r400 = x mod 400"
  have e: "x = 4 * q4 + r4" "x = 100 * q100 + r100" "x = 400 * q400 + r400"
    by (simp_all add: q4_def q100_def q400_def r4_def r100_def r400_def)
  have r: "0 \<le> r4" "r4 \<le> 3" "0 \<le> r100" "r100 \<le> 99" "0 \<le> r400" "r400 \<le> 399"
    using pos_mod_bound [of 4 x] pos_mod_bound [of 100 x] pos_mod_bound [of 400 x]
    by (simp_all add: r4_def r100_def r400_def)
  have y: "y = x + 1" by (simp add: x_def)
  have d: "DayFromYear y = 365 * (x - 1969) + q4 - q100 + q400 - 477"
    unfolding DayFromYear_alt x_def q4_def q100_def q400_def by simp
  have q: "400 * q4 = 100 * x - 100 * r4" "400 * q100 = 4 * x - 4 * r100" "400 * q400 = x - r400"
    using e by simp_all
  have "400 * (365 * (x - 1969) + q4 - q100 + q400 - 477)
      = 146000 * (x - 1969) + 400 * q4 - 400 * q100 + 400 * q400 - 190800" by simp
  also have "\<dots> = 146097 * (y - 1970) + (193 - 100 * r4 + 4 * r100 - r400)"
    unfolding q y by simp
  finally have k: "400 * DayFromYear y = 146097 * (y - 1970) + (193 - 100 * r4 + 4 * r100 - r400)"
    unfolding d .
  show ?thesis unfolding k using r by simp
qed

lemma TimeFromYear_le_iff: "TimeFromYear y \<le> t \<longleftrightarrow> DayFromYear y \<le> Day t"
proof -
  define q where "q = t div 86400000"
  define r where "r = t mod 86400000"
  have t: "t = 86400000 * q + r" by (simp add: q_def r_def)
  have r: "0 \<le> r" "r \<le> 86399999" using pos_mod_bound [of 86400000 t] by (simp_all add: r_def)
  have "86400000 * DayFromYear y \<le> t \<longleftrightarrow> DayFromYear y \<le> q"
    using r t by linarith
  then show ?thesis by (simp add: TimeFromYear_def Day_def msPerDay_def q_def)
qed

lemma YearFromTime_bounds:
  "DayFromYear (YearFromTime t) \<le> Day t \<and> Day t < DayFromYear (YearFromTime t + 1)"
proof -
  define d where "d = Day t"
  define k where "k = (400 * d) div 146097"
  define r where "r = (400 * d) mod 146097"
  define y where "y = 1970 + k"
  have e: "400 * d = 146097 * k + r" by (simp add: k_def r_def)
  have r: "0 \<le> r" "r \<le> 146096" using pos_mod_bound [of 146097 "400 * d"] by (simp_all add: r_def)
  have lo: "DayFromYear (y - 1) \<le> d"
    using DayFromYear_estimate [of "y - 1"] e r by (simp add: y_def)
  have hi: "d < DayFromYear (y + 2)"
    using DayFromYear_estimate [of "y + 2"] e r by (simp add: y_def)
  have s: "y + 1 + 1 = y + 2" "y - 1 + 1 = y" by simp_all
  have Y: "YearFromTime t =
      (if DayFromYear (y + 1) \<le> d then y + 1 else if d < DayFromYear y then y - 1 else y)"
    by (simp add: YearFromTime_def Let_def TimeFromYear_le_iff y_def k_def d_def not_le [symmetric])
  show ?thesis unfolding Y d_def [symmetric] using lo hi by (auto simp add: s)
qed

lemma YearFromTime_unique:
  assumes "DayFromYear y \<le> Day t" "Day t < DayFromYear (y + 1)"
  shows "YearFromTime t = y"
proof (rule ccontr)
  assume n: "YearFromTime t \<noteq> y"
  note b = YearFromTime_bounds [of t]
  show False
  proof (cases "YearFromTime t < y")
    case True
    then have "DayFromYear (YearFromTime t + 1) \<le> DayFromYear y" by (intro DayFromYear_mono) simp
    with b assms show False by linarith
  next
    case False
    with n have "y + 1 \<le> YearFromTime t" by simp
    then have "DayFromYear (y + 1) \<le> DayFromYear (YearFromTime t)" by (rule DayFromYear_mono)
    with b assms show False by linarith
  qed
qed

lemma YearFromTime_largest:
  "TimeFromYear (YearFromTime t) \<le> t \<and> (\<forall>y. TimeFromYear y \<le> t \<longrightarrow> y \<le> YearFromTime t)"
proof (intro conjI allI impI)
  show "TimeFromYear (YearFromTime t) \<le> t"
    using YearFromTime_bounds [of t] by (simp add: TimeFromYear_le_iff)
next
  fix y assume "TimeFromYear y \<le> t"
  then have a: "DayFromYear y \<le> Day t" by (simp add: TimeFromYear_le_iff)
  show "y \<le> YearFromTime t"
  proof (rule ccontr)
    assume "\<not> y \<le> YearFromTime t"
    then have "YearFromTime t + 1 \<le> y" by simp
    then have "DayFromYear (YearFromTime t + 1) \<le> DayFromYear y" by (rule DayFromYear_mono)
    with a YearFromTime_bounds [of t] show False by linarith
  qed
qed


text \<open>encoding a date of the calendar and decoding it gives the date back\<close>
lemma time_of_fields:
  assumes "valid_date y (m + 1) d" "Day t = DayOfFirst y m + d - 1"
  shows "YearFromTime t = y \<and> MonthFromTime t = m \<and> DateFromTime t = d"
proof -
  have L: "DaysInYear y = 365 \<or> DaysInYear y = 366" by (simp add: DaysInYear_def)
  have m: "m = 0 \<or> m = 1 \<or> m = 2 \<or> m = 3 \<or> m = 4 \<or> m = 5 \<or> m = 6 \<or> m = 7 \<or> m = 8 \<or> m = 9
      \<or> m = 10 \<or> m = 11" using assms(1) unfolding valid_date_def by arith
  have w: "0 \<le> DayFromMonth y m + d - 1 \<and> DayFromMonth y m + d - 1 < DaysInYear y"
    using assms(1) L m unfolding valid_date_def days_in_month_def DayFromMonth_def Let_def
    by (elim disjE) simp_all
  have Y: "YearFromTime t = y"
    using w assms(2) DayFromYear_Suc [of y] by (intro YearFromTime_unique) (simp_all add: DayOfFirst_def)
  have W: "DayWithinYear t = DayFromMonth y m + d - 1"
    by (simp add: DayWithinYear_def Y assms(2) DayOfFirst_def)
  have M: "MonthFromTime t = m"
    unfolding MonthFromTime_def InLeapYear_def Let_def Y W
    using assms(1) L m unfolding valid_date_def days_in_month_def DayFromMonth_def Let_def
    by (elim disjE) simp_all
  have "DateFromTime t = d"
    unfolding DateFromTime_def InLeapYear_def Let_def Y W M
    using assms(1) L m unfolding valid_date_def days_in_month_def DayFromMonth_def Let_def
    by (elim disjE) simp_all
  with Y M show ?thesis by simp
qed

text \<open>
  \<open>DayOfFirst ym mn\<close> is the day \<open>MakeDay\<close> is to find: at its start the year is \<open>ym\<close>,
  the month \<open>mn\<close> and the day of the month \<open>1\<close>.
\<close>

lemma DayOfFirst_fields:
  assumes "0 \<le> mn" "mn \<le> 11"
  shows "YearFromTime (DayOfFirst ym mn * msPerDay) = ym
    \<and> MonthFromTime (DayOfFirst ym mn * msPerDay) = mn
    \<and> DateFromTime (DayOfFirst ym mn * msPerDay) = 1"
proof -
  have v: "valid_date ym (mn + 1) 1" using assms by (simp add: valid_date_def days_in_month_def)
  have d: "Day (DayOfFirst ym mn * msPerDay) = DayOfFirst ym mn + 1 - 1"
    by (simp add: Day_def msPerDay_def)
  show ?thesis by (rule time_of_fields [OF v d])
qed

section \<open>\<open>formatDate\<close> on input in the form \<open>YYYY-MM-DD\<close>\<close>

lemma iso_fields_shape:
  assumes "iso_fields s = Some (y, m, d)"
  obtains ys ms ds where "s = ys @ CHR ''-'' # ms @ CHR ''-'' # ds"
    "length ys = 4" "length ms = 2" "length ds = 2"
    "list_all is_digit ys" "list_all is_digit ms" "list_all is_digit ds"
    "y = digits_value 10 ys" "m = digits_value 10 ms" "d = digits_value 10 ds"
proof -
  from assms obtain y1 y2 y3 y4 m1 m2 d1 d2 where
    s: "s = [y1, y2, y3, y4, CHR ''-'', m1, m2, CHR ''-'', d1, d2]"
    and g: "list_all is_digit [y1, y2, y3, y4, m1, m2, d1, d2]"
    and v: "y = digits_value 10 [y1, y2, y3, y4]" "m = digits_value 10 [m1, m2]"
      "d = digits_value 10 [d1, d2]"
    unfolding iso_fields_def by (auto split: list.splits if_splits)
  show thesis
    by (rule that [of "[y1, y2, y3, y4]" "[m1, m2]" "[d1, d2]"]) (use s g v in simp_all)
qed

lemma iso_fields_range:
  assumes "iso_fields s = Some (y, m, d)"
  shows "0 \<le> y \<and> y \<le> 9999 \<and> 0 \<le> m \<and> m \<le> 99 \<and> 0 \<le> d \<and> d \<le> 99"
proof -
  from assms obtain ys ms ds where l: "length ys = 4" "length ms = 2" "length ds = 2"
    and g: "list_all is_digit ys" "list_all is_digit ms" "list_all is_digit ds"
    and v: "y = digits_value 10 ys" "m = digits_value 10 ms" "d = digits_value 10 ds"
    by (rule iso_fields_shape)
  show ?thesis
    using digits_value_bounds [OF g(1)] digits_value_bounds [OF g(2)] digits_value_bounds [OF g(3)]
    by (simp add: l v)
qed

lemma formatDate_numbers:
  assumes "iso_fields s = Some (y, m, d)"
  shows "formatDate z s =
    toLocaleDateString z (Date z (Val (of_int y)) (Val (of_int (m - 1))) (Val (of_int d)))"
proof -
  from assms obtain ys ms ds where s: "s = ys @ CHR ''-'' # ms @ CHR ''-'' # ds"
    and l: "length ys = 4" "length ms = 2" "length ds = 2"
    and g: "list_all is_digit ys" "list_all is_digit ms" "list_all is_digit ds"
    and v: "y = digits_value 10 ys" "m = digits_value 10 ms" "d = digits_value 10 ds"
    by (rule iso_fields_shape)
  have h: "CHR ''-'' \<notin> set ys" "CHR ''-'' \<notin> set ms" "CHR ''-'' \<notin> set ds"
    using g digit_not_hyphen by (auto simp add: list_all_iff)
  have sp: "split CHR ''-'' s = [ys, ms, ds]"
    unfolding s by (simp add: split_append h split_no_sep)
  have ne: "ys \<noteq> []" "ms \<noteq> []" "ds \<noteq> []" using l by auto
  note r = iso_fields_range [OF assms]
  have N: "Number ys = Val (of_int y)" "Number ms = Val (of_int m)" "Number ds = Val (of_int d)"
    using r by (simp_all add: v Number_digits ne g)
  have "\<bar>m - 1\<bar> < 2 ^ 53" using r by (simp add: abs_less_iff)
  then have S: "subtract (Val (of_int m)) (Val 1) = Val (of_int (m - 1))"
    by (rule subtract_int)
  show ?thesis
    by (simp add: formatDate_def Let_def sp element_def ToNumber_def N S)
qed

lemma MakeDay_int:
  "MakeDay (Val (of_int y)) (Val (of_int m)) (Val (of_int d)) =
    Some (DayOfFirst (y + m div 12) (m mod 12) + d - 1)"
  by (simp add: MakeDay_def trunc_int)

lemma Date_int:
  "Date z (Val (of_int y)) (Val (of_int m)) (Val (of_int d)) = TimeClip (UTC z (local_midnight y m d))"
  by (simp add: Date_def Let_def trunc_int MakeDay_int MakeDate_def MakeTime_def
      local_midnight_def full_year_def del: of_int_add)

lemma DayFromMonth_bounds: "0 \<le> DayFromMonth y m \<and> DayFromMonth y m \<le> 335"
  by (simp add: DayFromMonth_def Let_def)

lemma local_midnight_bound:
  assumes "0 \<le> y" "y \<le> 9999" "- 1 \<le> m" "m \<le> 98" "0 \<le> d" "d \<le> 99"
  shows "\<bar>local_midnight y m d\<bar> \<le> 8639999913600000"
proof -
  define Y where "Y = full_year y + m div 12"
  have f: "0 \<le> full_year y" "full_year y \<le> 9999" using assms by (simp_all add: full_year_def)
  have q: "- 1 \<le> m div 12" "m div 12 \<le> 8" using assms by linarith+
  have Y: "- 1 \<le> Y" "Y \<le> 10007" using f q by (simp_all add: Y_def)
  define D where "D = DayFromYear Y"
  note e = DayFromYear_estimate [of Y]
  have D: "- 800000 \<le> D" "D \<le> 3000000"
    using e Y unfolding D_def by simp_all
  define n where "n = D + DayFromMonth Y (m mod 12) + d - 1"
  have n: "- 800001 \<le> n" "n \<le> 3000500"
    using D DayFromMonth_bounds [of Y "m mod 12"] assms by (simp_all add: n_def)
  have "local_midnight y m d = n * 86400000"
    by (simp add: local_midnight_def DayOfFirst_def msPerDay_def n_def D_def Y_def)
  then show ?thesis using n by simp
qed

lemma toLocaleDateString_local:
  assumes "agrees_at z t" "\<bar>t\<bar> \<le> 8639999913600000"
  shows "toLocaleDateString z (TimeClip (UTC z t)) =
    en_US_short (YearFromTime t) (MonthFromTime t) (DateFromTime t)"
proof -
  from assms(1) have o: "\<bar>z t False\<bar> < 86400000" "z (UTC z t) True = z t False"
    by (simp_all add: agrees_at_def msPerDay_def)
  have c: "TimeClip (UTC z t) = Some (UTC z t)"
    using o(1) assms(2) by (simp add: TimeClip_def UTC_def)
  have b: "LocalTime z (UTC z t) = t" using o(2) by (simp add: LocalTime_def) (simp add: UTC_def)
  show ?thesis by (simp add: toLocaleDateString_def c b Let_def)
qed

lemma formatDate_iso:
  assumes "iso_fields s = Some (y, m, d)" "agrees_at z (local_midnight y (m - 1) d)"
  shows "formatDate z s =
    en_US_short (YearFromTime (local_midnight y (m - 1) d))
      (MonthFromTime (local_midnight y (m - 1) d)) (DateFromTime (local_midnight y (m - 1) d))"
proof -
  note r = iso_fields_range [OF assms(1)]
  have "\<bar>local_midnight y (m - 1) d\<bar> \<le> 8639999913600000"
    using r by (intro local_midnight_bound) simp_all
  then show ?thesis
    unfolding formatDate_numbers [OF assms(1)] Date_int
    by (rule toLocaleDateString_local [OF assms(2)])
qed

lemma Day_local_midnight:
  "Day (local_midnight y m d) = DayOfFirst (full_year y + m div 12) (m mod 12) + d - 1"
  by (simp add: Day_def local_midnight_def msPerDay_def)

lemma agrees_at_fixed_zone: "\<bar>offset\<bar> < msPerDay \<Longrightarrow> agrees_at (fixed_zone offset) t"
  by (simp add: agrees_at_def fixed_zone_def)

lemma month_cases:
  "0 \<le> m \<Longrightarrow> m \<le> 11 \<Longrightarrow>
    m = 0 \<or> m = 1 \<or> m = 2 \<or> m = 3 \<or> m = 4 \<or> m = 5 \<or> m = 6 \<or> m = 7 \<or> m = 8 \<or> m = 9
      \<or> m = 10 \<or> m = (11::int)"
  by arith

lemma en_US_short_shape:
  assumes "0 \<le> m" "m \<le> 11"
  shows "en_US_short y m d \<noteq> ''Invalid Date'' \<and> day_of_month (en_US_short y m d) = two_digit d"
  using month_cases [OF assms]
  by (elim disjE) (simp_all add: en_US_short_def month_short_def day_of_month_def two_digit_def)

lemma char_of_digit_value: "is_digit c \<Longrightarrow> char_of (48 + digit_value c) = c"
  by (auto simp add: is_digit_iff digit_value_def char_of_def)

lemma two_digit_digits:
  assumes "is_digit a" "is_digit b"
  shows "two_digit (digits_value 10 [a, b]) = [a, b]"
proof -
  have r: "0 \<le> digit_value a" "digit_value a \<le> 9" "0 \<le> digit_value b" "digit_value b \<le> 9"
    using assms by (simp_all add: digit_value_nonneg is_digit_of_def)
  have v: "digits_value 10 [a, b] = 10 * digit_value a + digit_value b"
    by (simp add: digits_value_def)
  have "(10 * digit_value a + digit_value b) div 10 mod 10 = digit_value a"
    "(10 * digit_value a + digit_value b) mod 10 = digit_value b"
    using r by simp_all
  then show ?thesis by (simp add: v two_digit_def char_of_digit_value assms)
qed

lemma DaysInYear_full_year:
  "0 < y \<or> y < 0 \<Longrightarrow> DaysInYear (full_year y) = DaysInYear y"
proof (cases "0 \<le> y \<and> y \<le> 99")
  case False
  then show ?thesis by (auto simp add: full_year_def)
next
  case True
  assume "0 < y \<or> y < 0"
  with True have r: "1 \<le> y" "y \<le> 99" by simp_all
  have a: "(1900 + y) mod 4 = y mod 4" using mod_add_left_eq [of 1900 4 y] by simp
  have b: "(1900 + y) mod 100 = y" using mod_add_left_eq [of 1900 100 y] r by simp
  have c: "y mod 100 = y" using r by simp
  show ?thesis using r by (simp add: full_year_def DaysInYear_def a b c)
qed

lemma valid_date_full_year:
  assumes "valid_date y m d" "\<not> (y = 0 \<and> m = 2 \<and> d = 29)"
  shows "valid_date (full_year y) m d"
proof (cases "y = 0")
  case True
  have "DaysInYear 1900 = 365" "DaysInYear 0 = 366" by (simp_all add: DaysInYear_def)
  then show ?thesis using assms True
    by (auto simp add: valid_date_def days_in_month_def full_year_def)
next
  case False
  then have "DaysInYear (full_year y) = DaysInYear y" by (intro DaysInYear_full_year) auto
  then show ?thesis using assms(1) by (auto simp add: valid_date_def days_in_month_def)
qed

text \<open>
  Support for C1: in a zone where the local midnight of the date exists, \<open>formatDate\<close>
  shows every date of the calendar but 29 February of the year \<open>0000\<close> with its own day
  (and, from the year \<open>0100\<close> on, with its own year).
\<close>

lemma formatDate_keeps_day:
  assumes "iso_fields dateStr = Some (y, m, d)" "valid_date y m d"
    and "\<not> (y = 0 \<and> m = 2 \<and> d = 29)"
    and "agrees_at LocalTZA (local_midnight y (m - 1) d)"
  shows "formatDate LocalTZA dateStr = en_US_short (full_year y) (m - 1) d
    \<and> day_of_month (formatDate LocalTZA dateStr) = drop 8 dateStr"
proof -
  define t where "t = local_midnight y (m - 1) d"
  have m: "0 \<le> m - 1" "m - 1 \<le> 11" using assms(2) by (simp_all add: valid_date_def)
  then have q: "(m - 1) div 12 = 0" "(m - 1) mod 12 = m - 1" by simp_all
  have D: "Day t = DayOfFirst (full_year y) (m - 1) + d - 1"
    unfolding t_def Day_local_midnight q by simp
  have v: "valid_date (full_year y) (m - 1 + 1) d"
    using valid_date_full_year [OF assms(2,3)] by simp
  note f = time_of_fields [OF v D]
  have e: "formatDate LocalTZA dateStr = en_US_short (full_year y) (m - 1) d"
    using formatDate_iso [OF assms(1,4)] f unfolding t_def by simp
  from assms(1) obtain ys ms ds where s: "dateStr = ys @ CHR ''-'' # ms @ CHR ''-'' # ds"
    and l: "length ys = 4" "length ms = 2" "length ds = 2"
    and g: "list_all is_digit ds" and dv: "d = digits_value 10 ds"
    by (rule iso_fields_shape)
  from l(3) obtain d1 d2 where ds: "ds = [d1, d2]"
    by (cases ds; cases "tl ds") auto
  have "two_digit d = ds" using g unfolding dv ds by (simp add: two_digit_digits)
  moreover have "drop 8 dateStr = ds" unfolding s using l by simp
  ultimately show ?thesis using e en_US_short_shape [OF m] by simp
qed

text \<open>
  The hypothesis on the zone is needed: in a zone that skips a day, a date of that day
  comes out as the day after.
\<close>

lemma formatDate_skipped_day:
  "\<not> agrees_at skipping_zone (local_midnight 2011 11 30)
   \<and> formatDate skipping_zone ''2011-12-30'' = ''Dec 31, 2011''"
proof -
  have i: "iso_fields ''2011-12-30'' = Some (2011, 12, 30)"
    by (simp add: iso_fields_def is_digit_of_def digit_value_def digits_value_def)
  have t: "local_midnight 2011 11 30 = 1325203200000"
    by (simp add: local_midnight_def full_year_def DayOfFirst_def DayFromYear_def DayFromMonth_def
        DaysInYear_def msPerDay_def)
  have u: "UTC skipping_zone 1325203200000 = 1325239200000"
    by (simp add: UTC_def skipping_zone_def)
  have l: "LocalTime skipping_zone 1325239200000 = 1325289600000"
    by (simp add: LocalTime_def skipping_zone_def)
  have Y: "YearFromTime 1325289600000 = 2011"
    by (simp add: YearFromTime_def Day_def msPerDay_def TimeFromYear_def DayFromYear_def)
  have M: "MonthFromTime 1325289600000 = 11"
    by (simp add: MonthFromTime_def InLeapYear_def DaysInYear_def DayWithinYear_def Y Day_def
        msPerDay_def DayFromYear_def)
  have D: "DateFromTime 1325289600000 = 31"
    by (simp add: DateFromTime_def M InLeapYear_def DaysInYear_def DayWithinYear_def Y Day_def
        msPerDay_def DayFromYear_def)
  have s: "en_US_short 2011 11 31 = ''Dec 31, 2011''"
    by (simp add: en_US_short_def month_short_def two_digit_def decimal.simps char_of_def)
  have d: "Date skipping_zone (Val (of_int 2011)) (Val (of_int (12 - 1))) (Val (of_int 30))
      = Some 1325239200000"
    unfolding Date_int by (simp add: t u TimeClip_def)
  have "formatDate skipping_zone ''2011-12-30'' = ''Dec 31, 2011''"
    unfolding formatDate_numbers [OF i] d
    by (simp add: toLocaleDateString_def l Y M D s)
  moreover have "\<not> agrees_at skipping_zone (local_midnight 2011 11 30)"
    by (simp add: agrees_at_def t u) (simp add: skipping_zone_def)
  ultimately show ?thesis by simp
qed

lemma MakeDay_NaN:
  "year = NaN \<or> month = NaN \<or> dt = NaN \<Longrightarrow> MakeDay year month dt = None"
  by (cases year; cases month; cases dt) (auto simp add: MakeDay_def)

lemma Date_NaN:
  assumes "year = NaN \<or> month = NaN \<or> dt = NaN"
  shows "Date z year month dt = None"
proof -
  have "MakeDay (case year of Val y \<Rightarrow>
           (let yi = trunc y in if 0 \<le> yi \<and> yi \<le> 99 then Val (of_int (1900 + yi)) else year)
         | _ \<Rightarrow> year) month dt = None"
    using assms by (intro MakeDay_NaN) auto
  then show ?thesis by (simp add: Date_def Let_def MakeDate_def)
qed

lemma formatDate_forms:
  "formatDate z s = ''Invalid Date'' \<or> (\<exists>y m d. formatDate z s = en_US_short y m d)"
  by (simp add: formatDate_def Let_def toLocaleDateString_def split: option.split) blast

lemma formatDate_NaN:
  assumes "i < 3" "i < length (split CHR ''-'' s) \<longrightarrow> Number (split CHR ''-'' s ! i) = NaN"
  shows "formatDate z s = ''Invalid Date''"
proof -
  define parts where "parts = map Number (split CHR ''-'' s)"
  have n: "ToNumber (element parts i) = NaN"
    using assms(2) by (simp add: element_def ToNumber_def parts_def)
  have "i = 0 \<or> i = 1 \<or> i = 2" using assms(1) by arith
  then have "ToNumber (element parts 0) = NaN
      \<or> subtract (ToNumber (element parts 1)) (Val 1) = NaN
      \<or> ToNumber (element parts 2) = NaN"
    using n by (auto simp add: subtract_def)
  then have "Date z (ToNumber (element parts 0)) (subtract (ToNumber (element parts 1)) (Val 1))
      (ToNumber (element parts 2)) = None" by (rule Date_NaN)
  then show ?thesis
    by (simp add: formatDate_def Let_def parts_def [symmetric] toLocaleDateString_def)
qed

section \<open>What the schemas accept\<close>

lemma under_Nil_iff: "under k xs = [] \<longleftrightarrow> xs = []"
  by (simp add: under_def)

lemma issues_text: "issues U (z_string []) v = [] \<longleftrightarrow> is_text v"
  by (cases v) (simp_all add: is_text_def)

lemma issues_number: "issues U z_number v = [] \<longleftrightarrow> is_numeric v"
  by (cases v) (simp_all add: is_numeric_def)

lemma issues_url: "issues U (z_string [url]) v = [] \<longleftrightarrow> is_url U v"
  by (cases v) (simp_all add: is_url_def)

lemma issues_date: "issues U (z_string [date]) v = [] \<longleftrightarrow> (\<exists>s. v = JStr s \<and> dateRegex s)"
  by (cases v) simp_all

lemma issues_items_text: "issues_items U (z_string []) i xs = [] \<longleftrightarrow> list_all is_text xs"
  by (induction xs arbitrary: i) (simp_all add: under_Nil_iff issues_text del: issues.simps)

lemma issues_text_sequence: "issues U (z_array (z_string [])) v = [] \<longleftrightarrow> is_text_sequence v"
  by (cases v) (simp_all add: is_text_sequence_def issues_items_text)

lemma blog_issues:
  "issues U (schema blog) (JObj props) =
     under (Key ''title'') (issues U (z_string []) (get props ''title''))
     @ under (Key ''date'') (issues U (z_string [date]) (get props ''date''))
     @ under (Key ''tags'') (issues U (z_array (z_string [])) (get props ''tags''))"
  by (simp add: blog_def)

lemma projects_issues:
  "issues U (schema projects) (JObj props) =
     under (Key ''id'') (issues U z_number (get props ''id''))
     @ under (Key ''title'') (issues U (z_string []) (get props ''title''))
     @ under (Key ''description'') (issues U (z_string []) (get props ''description''))
     @ under (Key ''imagePath'') (issues U (z_string []) (get props ''imagePath''))
     @ under (Key ''repo'') (issues U (z_string [url]) (get props ''repo''))
     @ under (Key ''live'') (issues U (z_string [url]) (get props ''live''))"
  by (simp add: projects_def)

lemma blog_accepts_iff:
  "issues U (schema blog) (JObj props) = [] \<longleftrightarrow>
     is_text (get props ''title'')
     \<and> (\<exists>s. get props ''date'' = JStr s \<and> dateRegex s)
     \<and> is_text_sequence (get props ''tags'')"
  unfolding blog_issues
  by (simp only: append_is_Nil_conv under_Nil_iff issues_text issues_date issues_text_sequence)

lemma projects_accepts_iff:
  "issues U (schema projects) v = [] \<longleftrightarrow> well_formed_project U v"
proof (cases v)
  case (JObj props)
  show ?thesis unfolding JObj projects_issues
    by (simp only: append_is_Nil_conv under_Nil_iff issues_text issues_number issues_url
        well_formed_project_def jsval.case)
qed (simp_all add: projects_def well_formed_project_def)

lemma safeParse_Inl_iff: "(\<exists>found. safeParse U s v = Inl found) \<longleftrightarrow> issues U s v \<noteq> []"
  by (simp add: safeParse_def)

lemma safeParse_Inr_iff: "safeParse U s v = Inr out \<longleftrightarrow> issues U s v = [] \<and> out = parsed s v"
  by (auto simp add: safeParse_def)

lemma projects_parsed:
  "parsed (schema projects) (JObj props) =
     JObj [(''id'', get props ''id''), (''title'', get props ''title''),
           (''description'', get props ''description''), (''imagePath'', get props ''imagePath''),
           (''repo'', get props ''repo''), (''live'', get props ''live'')]"
  by (simp add: projects_def)

lemma projects_parsed_field:
  "k \<in> set project_fields \<Longrightarrow> field (parsed (schema projects) (JObj props)) k = get props k"
  by (auto simp add: projects_parsed project_fields_def field_def get_def)

lemma digit_value_inj:
  "is_digit a \<Longrightarrow> is_digit b \<Longrightarrow> digit_value a = digit_value b \<Longrightarrow> a = b"
  by (metis char_of_digit_value)

lemma digit_value_range: "is_digit c \<Longrightarrow> 0 \<le> digit_value c \<and> digit_value c \<le> 9"
  by (simp add: digit_value_nonneg is_digit_of_def)

lemma one_of_digits:
  assumes "is_digit c" "list_all is_digit cs"
  shows "one_of cs c \<longleftrightarrow> digit_value c \<in> set (map digit_value cs)"
proof
  assume "one_of cs c"
  then show "digit_value c \<in> set (map digit_value cs)" by (simp add: one_of_def)
next
  assume "digit_value c \<in> set (map digit_value cs)"
  then obtain k where k: "k \<in> set cs" "digit_value c = digit_value k" by auto
  then have "is_digit k" using assms(2) by (simp add: list_all_iff)
  then have "c = k" using assms(1) k(2) by (intro digit_value_inj)
  then show "one_of cs c" using k(1) by (simp add: one_of_def)
qed

lemma one_of_not_digit: "list_all is_digit cs \<Longrightarrow> one_of cs c \<Longrightarrow> is_digit c"
  by (simp add: one_of_def list_all_iff)

lemma digit_eq_iff:
  "is_digit c \<Longrightarrow> is_digit k \<Longrightarrow> c = k \<longleftrightarrow> digit_value c = digit_value k"
  using digit_value_inj by blast

lemma digit_value_chars:
  "digit_value CHR ''0'' = 0" "digit_value CHR ''1'' = 1" "digit_value CHR ''2'' = 2"
  "digit_value CHR ''3'' = 3" "digit_value CHR ''4'' = 4" "digit_value CHR ''5'' = 5"
  "digit_value CHR ''6'' = 6" "digit_value CHR ''7'' = 7" "digit_value CHR ''8'' = 8"
  "digit_value CHR ''9'' = 9"
  by (simp_all add: digit_value_def)

lemma digit_cases:
  "0 \<le> p \<Longrightarrow> p \<le> 9 \<Longrightarrow>
    p = 0 \<or> p = 1 \<or> p = 2 \<or> p = 3 \<or> p = 4 \<or> p = 5 \<or> p = 6 \<or> p = 7 \<or> p = 8 \<or> p = (9::int)"
  by arith

lemma multiple_of_four:
  assumes "0 \<le> p" "p \<le> 9" "0 \<le> q" "q \<le> 9"
  shows "(10 * p + q) mod 4 = 0 \<longleftrightarrow>
     (p = 0 \<or> p = 2 \<or> p = 4 \<or> p = 6 \<or> p = 8) \<and> (q = 0 \<or> q = 4 \<or> q = 8)
     \<or> (p = 1 \<or> p = 3 \<or> p = 5 \<or> p = 7 \<or> p = 9) \<and> (q = 2 \<or> q = (6::int))"
  using digit_cases [OF assms(1,2)] digit_cases [OF assms(3,4)]
  by (elim disjE) simp_all

lemma DaysInYear_century:
  assumes "0 \<le> C" "C \<le> 99"
  shows "DaysInYear (100 * A + C) = 366 \<longleftrightarrow> C \<noteq> 0 \<and> C mod 4 = 0 \<or> C = 0 \<and> A mod 4 = 0"
proof -
  have a: "(100 * A + C) mod 4 = C mod 4"
    using mod_mult_self4 [of 4 "25 * A" C] by (simp add: mult.assoc)
  have b: "(100 * A + C) mod 100 = C" "C mod 100 = C" using assms by simp_all
  have c: "(100 * A) mod 400 = 100 * (A mod 4)"
    using mult_mod_right [of 100 A 4] by simp
  show ?thesis
  proof (cases "C = 0")
    case True
    then show ?thesis using c by (simp add: DaysInYear_def a)
  next
    case False
    then show ?thesis by (simp add: DaysInYear_def a b)
  qed
qed

lemma digits_value_4:
  "digits_value 10 [a, b, c, d] =
    100 * (10 * digit_value a + digit_value b) + (10 * digit_value c + digit_value d)"
  by (simp add: digits_value_def)

lemma digits_value_2: "digits_value 10 [a, b] = 10 * digit_value a + digit_value b"
  by (simp add: digits_value_def)

lemma leap_year_digits_iff:
  "leap_year_digits a b c d \<longleftrightarrow>
     is_digit a \<and> is_digit b \<and> is_digit c \<and> is_digit d
     \<and> DaysInYear (digits_value 10 [a, b, c, d]) = 366"
proof (cases "is_digit a \<and> is_digit b \<and> is_digit c \<and> is_digit d")
  case False
  have "leap_year_digits a b c d \<Longrightarrow> is_digit a \<and> is_digit b \<and> is_digit c \<and> is_digit d"
    by (auto simp add: leap_year_digits_def is_digit_iff one_of_def)
  with False show ?thesis by blast
next
  case True
  have r: "0 \<le> digit_value a" "digit_value a \<le> 9" "0 \<le> digit_value b" "digit_value b \<le> 9"
    "0 \<le> digit_value c" "digit_value c \<le> 9" "0 \<le> digit_value d" "digit_value d \<le> 9"
    using True digit_value_range by simp_all
  note z = digit_value_chars(1)
  have C: "0 \<le> 10 * digit_value c + digit_value d" "10 * digit_value c + digit_value d \<le> 99"
    using r by simp_all
  have C0: "10 * digit_value c + digit_value d = 0 \<longleftrightarrow> digit_value c = 0 \<and> digit_value d = 0"
    using r by arith
  have m1: "(10 * digit_value c + digit_value d) mod 4 = 0 \<longleftrightarrow>
     (digit_value c = 0 \<or> digit_value c = 2 \<or> digit_value c = 4 \<or> digit_value c = 6 \<or> digit_value c = 8)
       \<and> (digit_value d = 0 \<or> digit_value d = 4 \<or> digit_value d = 8)
     \<or> (digit_value c = 1 \<or> digit_value c = 3 \<or> digit_value c = 5 \<or> digit_value c = 7 \<or> digit_value c = 9)
       \<and> (digit_value d = 2 \<or> digit_value d = 6)"
    using r by (intro multiple_of_four)
  have m2: "(10 * digit_value a + digit_value b) mod 4 = 0 \<longleftrightarrow>
     (digit_value a = 0 \<or> digit_value a = 2 \<or> digit_value a = 4 \<or> digit_value a = 6 \<or> digit_value a = 8)
       \<and> (digit_value b = 0 \<or> digit_value b = 4 \<or> digit_value b = 8)
     \<or> (digit_value a = 1 \<or> digit_value a = 3 \<or> digit_value a = 5 \<or> digit_value a = 7 \<or> digit_value a = 9)
       \<and> (digit_value b = 2 \<or> digit_value b = 6)"
    using r by (intro multiple_of_four)
  have d0: "\<And>k. is_digit k \<Longrightarrow> k = CHR ''0'' \<longleftrightarrow> digit_value k = 0"
    using digit_eq_iff [of _ "CHR ''0''"] by (simp add: z is_digit_of_def)
  have L: "leap_year_digits a b c d \<longleftrightarrow>
      (digit_value c = 2 \<or> digit_value c = 4 \<or> digit_value c = 6 \<or> digit_value c = 8)
        \<and> (digit_value d = 0 \<or> digit_value d = 4 \<or> digit_value d = 8)
      \<or> (digit_value c = 1 \<or> digit_value c = 3 \<or> digit_value c = 5 \<or> digit_value c = 7 \<or> digit_value c = 9)
        \<and> (digit_value d = 2 \<or> digit_value d = 6)
      \<or> digit_value c = 0 \<and> (digit_value d = 4 \<or> digit_value d = 8)
      \<or> (digit_value a = 0 \<or> digit_value a = 2 \<or> digit_value a = 4 \<or> digit_value a = 6 \<or> digit_value a = 8)
        \<and> (digit_value b = 0 \<or> digit_value b = 4 \<or> digit_value b = 8)
        \<and> digit_value c = 0 \<and> digit_value d = 0
      \<or> (digit_value a = 1 \<or> digit_value a = 3 \<or> digit_value a = 5 \<or> digit_value a = 7 \<or> digit_value a = 9)
        \<and> (digit_value b = 2 \<or> digit_value b = 6)
        \<and> digit_value c = 0 \<and> digit_value d = 0"
    using True
    by (simp add: leap_year_digits_def one_of_digits d0 is_digit_of_def digit_value_chars)
  show ?thesis
    unfolding L digits_value_4 DaysInYear_century [OF C] C0 m1 m2 using True by auto
qed

lemma months_31:
  assumes "0 \<le> a" "a \<le> 9" "0 \<le> b" "b \<le> 9"
  shows "a = 0 \<and> (b = 1 \<or> b = 3 \<or> b = 5 \<or> b = 7 \<or> b = 8) \<or> a = 1 \<and> (b = 0 \<or> b = 2)
    \<longleftrightarrow> 10 * a + b = 1 \<or> 10 * a + b = 3 \<or> 10 * a + b = 5 \<or> 10 * a + b = 7
      \<or> 10 * a + b = 8 \<or> 10 * a + b = 10 \<or> 10 * a + b = (12::int)"
  using assms by arith

lemma months_30:
  assumes "0 \<le> a" "a \<le> 9" "0 \<le> b" "b \<le> 9"
  shows "a = 0 \<and> (b = 4 \<or> b = 6 \<or> b = 9) \<or> a = 1 \<and> b = 1
    \<longleftrightarrow> 10 * a + b = 4 \<or> 10 * a + b = 6 \<or> 10 * a + b = 9 \<or> 10 * a + b = (11::int)"
  using assms by arith

lemma month_2:
  assumes "0 \<le> a" "a \<le> 9" "0 \<le> b" "b \<le> 9"
  shows "a = 0 \<and> b = 2 \<longleftrightarrow> 10 * a + b = (2::int)"
  using assms by arith

lemma days_31:
  assumes "0 \<le> c" "c \<le> 9" "0 \<le> d" "d \<le> 9"
  shows "c = 0 \<and> (d = 1 \<or> d = 2 \<or> d = 3 \<or> d = 4 \<or> d = 5 \<or> d = 6 \<or> d = 7 \<or> d = 8 \<or> d = 9)
      \<or> (c = 1 \<or> c = 2) \<or> c = 3 \<and> (d = 0 \<or> d = 1)
    \<longleftrightarrow> 1 \<le> 10 * c + d \<and> 10 * c + d \<le> (31::int)"
  using assms by arith

lemma days_30:
  assumes "0 \<le> c" "c \<le> 9" "0 \<le> d" "d \<le> 9"
  shows "c = 0 \<and> (d = 1 \<or> d = 2 \<or> d = 3 \<or> d = 4 \<or> d = 5 \<or> d = 6 \<or> d = 7 \<or> d = 8 \<or> d = 9)
      \<or> (c = 1 \<or> c = 2) \<or> c = 3 \<and> d = 0
    \<longleftrightarrow> 1 \<le> 10 * c + d \<and> 10 * c + d \<le> (30::int)"
  using assms by arith

lemma days_28:
  assumes "0 \<le> c" "c \<le> 9" "0 \<le> d" "d \<le> 9"
  shows "c = 0 \<and> (d = 1 \<or> d = 2 \<or> d = 3 \<or> d = 4 \<or> d = 5 \<or> d = 6 \<or> d = 7 \<or> d = 8 \<or> d = 9)
      \<or> c = 1
      \<or> c = 2 \<and> (d = 0 \<or> d = 1 \<or> d = 2 \<or> d = 3 \<or> d = 4 \<or> d = 5 \<or> d = 6 \<or> d = 7 \<or> d = 8)
    \<longleftrightarrow> 1 \<le> 10 * c + d \<and> 10 * c + d \<le> (28::int)"
  using assms by arith

lemma month_day_digits_iff:
  "month_day_digits m1 m2 d1 d2 \<longleftrightarrow>
     is_digit m1 \<and> is_digit m2 \<and> is_digit d1 \<and> is_digit d2
     \<and> 1 \<le> digits_value 10 [m1, m2] \<and> digits_value 10 [m1, m2] \<le> 12
     \<and> 1 \<le> digits_value 10 [d1, d2]
     \<and> digits_value 10 [d1, d2] \<le> common_days (digits_value 10 [m1, m2])"
proof (cases "is_digit m1 \<and> is_digit m2 \<and> is_digit d1 \<and> is_digit d2")
  case False
  have "month_day_digits m1 m2 d1 d2 \<Longrightarrow> is_digit m1 \<and> is_digit m2 \<and> is_digit d1 \<and> is_digit d2"
    by (auto simp add: month_day_digits_def is_digit_iff one_of_def)
  with False show ?thesis by blast
next
  case True
  define a where "a = digit_value m1"
  define b where "b = digit_value m2"
  define c where "c = digit_value d1"
  define d where "d = digit_value d2"
  have r: "0 \<le> a" "a \<le> 9" "0 \<le> b" "b \<le> 9" "0 \<le> c" "c \<le> 9" "0 \<le> d" "d \<le> 9"
    using True digit_value_range by (simp_all add: a_def b_def c_def d_def)
  have e: "\<And>k j. is_digit k \<Longrightarrow> is_digit j \<Longrightarrow> k = j \<longleftrightarrow> digit_value k = digit_value j"
    by (rule digit_eq_iff)
  have g: "is_digit CHR ''0''" "is_digit CHR ''1''" "is_digit CHR ''2''" "is_digit CHR ''3''"
    by (simp_all add: is_digit_of_def digit_value_chars)
  have L: "month_day_digits m1 m2 d1 d2 \<longleftrightarrow>
      (a = 0 \<and> (b = 1 \<or> b = 3 \<or> b = 5 \<or> b = 7 \<or> b = 8) \<or> a = 1 \<and> (b = 0 \<or> b = 2))
        \<and> (c = 0 \<and> (d = 1 \<or> d = 2 \<or> d = 3 \<or> d = 4 \<or> d = 5 \<or> d = 6 \<or> d = 7 \<or> d = 8 \<or> d = 9)
            \<or> (c = 1 \<or> c = 2) \<or> c = 3 \<and> (d = 0 \<or> d = 1))
      \<or> (a = 0 \<and> (b = 4 \<or> b = 6 \<or> b = 9) \<or> a = 1 \<and> b = 1)
        \<and> (c = 0 \<and> (d = 1 \<or> d = 2 \<or> d = 3 \<or> d = 4 \<or> d = 5 \<or> d = 6 \<or> d = 7 \<or> d = 8 \<or> d = 9)
            \<or> (c = 1 \<or> c = 2) \<or> c = 3 \<and> d = 0)
      \<or> (a = 0 \<and> b = 2)
        \<and> (c = 0 \<and> (d = 1 \<or> d = 2 \<or> d = 3 \<or> d = 4 \<or> d = 5 \<or> d = 6 \<or> d = 7 \<or> d = 8 \<or> d = 9)
            \<or> c = 1
            \<or> c = 2 \<and> (d = 0 \<or> d = 1 \<or> d = 2 \<or> d = 3 \<or> d = 4 \<or> d = 5 \<or> d = 6 \<or> d = 7 \<or> d = 8))"
    using True
    by (simp add: month_day_digits_def one_of_digits e g is_digit_of_def digit_value_chars
        a_def b_def c_def d_def)
  have N: "digits_value 10 [m1, m2] = 10 * a + b" "digits_value 10 [d1, d2] = 10 * c + d"
    by (simp_all add: digits_value_2 a_def b_def c_def d_def)
  have M: "1 \<le> 10 * a + b \<and> 10 * a + b \<le> 12 \<longleftrightarrow>
      (10 * a + b = 1 \<or> 10 * a + b = 3 \<or> 10 * a + b = 5 \<or> 10 * a + b = 7
        \<or> 10 * a + b = 8 \<or> 10 * a + b = 10 \<or> 10 * a + b = 12)
      \<or> (10 * a + b = 4 \<or> 10 * a + b = 6 \<or> 10 * a + b = 9 \<or> 10 * a + b = 11)
      \<or> 10 * a + b = 2" by arith
  show ?thesis
    unfolding L N months_31 [OF r(1-4)] months_30 [OF r(1-4)] month_2 [OF r(1-4)]
      days_31 [OF r(5-8)] days_30 [OF r(5-8)] days_28 [OF r(5-8)]
    using True M by (auto simp add: common_days_def)
qed

lemma valid_date_cases:
  "valid_date y m d \<longleftrightarrow>
     DaysInYear y = 366 \<and> m = 2 \<and> d = 29
     \<or> 1 \<le> m \<and> m \<le> 12 \<and> 1 \<le> d \<and> d \<le> common_days m"
  by (auto simp add: valid_date_def days_in_month_def common_days_def)

lemma digits_0229:
  "[m1, m2, d1, d2] = ''0229'' \<longleftrightarrow>
     is_digit m1 \<and> is_digit m2 \<and> is_digit d1 \<and> is_digit d2
     \<and> digits_value 10 [m1, m2] = 2 \<and> digits_value 10 [d1, d2] = 29"
proof (cases "is_digit m1 \<and> is_digit m2 \<and> is_digit d1 \<and> is_digit d2")
  case False
  have "[m1, m2, d1, d2] = ''0229'' \<Longrightarrow> is_digit m1 \<and> is_digit m2 \<and> is_digit d1 \<and> is_digit d2"
    by (auto simp add: is_digit_of_def digit_value_chars)
  with False show ?thesis by blast
next
  case True
  have r: "0 \<le> digit_value m1" "digit_value m1 \<le> 9" "0 \<le> digit_value m2" "digit_value m2 \<le> 9"
    "0 \<le> digit_value d1" "digit_value d1 \<le> 9" "0 \<le> digit_value d2" "digit_value d2 \<le> 9"
    using True digit_value_range by simp_all
  have g: "is_digit CHR ''0''" "is_digit CHR ''2''" "is_digit CHR ''9''"
    by (simp_all add: is_digit_of_def digit_value_chars)
  have "[m1, m2, d1, d2] = ''0229'' \<longleftrightarrow>
      digit_value m1 = 0 \<and> digit_value m2 = 2 \<and> digit_value d1 = 2 \<and> digit_value d2 = 9"
    using True by (simp add: digit_eq_iff g digit_value_chars)
  also have "\<dots> \<longleftrightarrow> 10 * digit_value m1 + digit_value m2 = 2
      \<and> 10 * digit_value d1 + digit_value d2 = 29"
    using r by arith
  finally show ?thesis using True by (simp add: digits_value_2)
qed

text \<open>
  The regular expression of the check \<open>date\<close> matches the strings in the form
  \<open>YYYY-MM-DD\<close> that denote a date of the calendar, and no other string.
\<close>

lemma dateRegex_iff: "dateRegex s \<longleftrightarrow> is_calendar_date s"
proof (cases "\<exists>y1 y2 y3 y4 h1 m1 m2 h2 d1 d2. s = [y1, y2, y3, y4, h1, m1, m2, h2, d1, d2]")
  case False
  then have "\<not> dateRegex s" "iso_fields s = None"
    unfolding dateRegex_def iso_fields_def by (auto split: list.splits)
  then show ?thesis by (simp add: is_calendar_date_def)
next
  case True
  then obtain y1 y2 y3 y4 h1 m1 m2 h2 d1 d2 where
    s: "s = [y1, y2, y3, y4, h1, m1, m2, h2, d1, d2]" by blast
  define Y where "Y = digits_value 10 [y1, y2, y3, y4]"
  define M where "M = digits_value 10 [m1, m2]"
  define D where "D = digits_value 10 [d1, d2]"
  define hy where "hy \<longleftrightarrow> h1 = CHR ''-'' \<and> h2 = CHR ''-''"
  define gy where "gy \<longleftrightarrow> is_digit y1 \<and> is_digit y2 \<and> is_digit y3 \<and> is_digit y4"
  define gm where "gm \<longleftrightarrow> is_digit m1 \<and> is_digit m2 \<and> is_digit d1 \<and> is_digit d2"
  have R: "dateRegex s \<longleftrightarrow>
      hy \<and> (leap_year_digits y1 y2 y3 y4 \<and> [m1, m2, d1, d2] = ''0229''
             \<or> gy \<and> month_day_digits m1 m2 d1 d2)"
    unfolding s dateRegex_def hy_def gy_def by (simp only: list.case conj_assoc)
  have I: "is_calendar_date s \<longleftrightarrow> hy \<and> gy \<and> gm \<and> valid_date Y M D"
    unfolding s iso_fields_def is_calendar_date_def hy_def gy_def gm_def Y_def M_def D_def
    by (simp del: digits_value_4 digits_value_2) blast
  show ?thesis
    unfolding R I leap_year_digits_iff month_day_digits_iff digits_0229 valid_date_cases
      Y_def [symmetric] M_def [symmetric] D_def [symmetric] gy_def gm_def
    by blast
qed


lemma load_from_invalid:
  "raw \<in> set raws \<Longrightarrow> issues U s raw \<noteq> [] \<Longrightarrow> \<exists>e. load_from U s i raws = Inl e"
proof (induction raws arbitrary: i)
  case Nil
  then show ?case by simp
next
  case (Cons x xs)
  show ?case
  proof (cases "issues U s x = []")
    case False
    then show ?thesis by (simp add: safeParse_def)
  next
    case True
    with Cons.prems have "raw \<in> set xs" by auto
    then obtain e where "load_from U s (Suc i) xs = Inl e" using Cons.IH Cons.prems(2) by blast
    then show ?thesis using True by (simp add: safeParse_def)
  qed
qed

lemma load_from_valid:
  "list_all (\<lambda>raw. issues U s raw = []) raws \<Longrightarrow> load_from U s i raws = Inr (map (parsed s) raws)"
  by (induction raws arbitrary: i) (simp_all add: safeParse_def)

lemma load_from_Inr:
  "load_from U s i raws = Inr entries \<Longrightarrow> entries = map (parsed s) raws"
proof (induction raws arbitrary: i entries)
  case Nil
  then show ?case by simp
next
  case (Cons x xs)
  then show ?case
    by (auto simp add: safeParse_def split: if_splits sum.splits)
qed

subsection \<open>The URL parser\<close>

text \<open>
  The parser finds a scheme in its input exactly when the input has the syntax of one
  before its first colon; a URL with a scheme that asks for a host and with no host is
  a failure; and where the authority is a plain host, the parser accepts the URL
  exactly when the host has no forbidden code point and, if it ends in a number, is
  an IPv4 address. The last two lemmas run the parser on strings it accepts (among them the
  URLs of the records that serve as examples in this theory) and on strings it
  rejects, for every Unicode processing of domains.
\<close>

lemma scheme_char_not_colon: "scheme_char c \<Longrightarrow> c \<noteq> CHR '':''"
  by (auto simp add: scheme_char_def is_ascii_alpha_def is_digit_of_def digit_value_def one_of_def Let_def)

lemma is_ascii_alpha_scheme_char: "is_ascii_alpha c \<Longrightarrow> scheme_char c"
  by (simp add: scheme_char_def)

lemma scheme_state_Some:
  "scheme_state buffer s = Some (b, r) \<Longrightarrow>
     \<exists>p. s = p @ CHR '':'' # r \<and> list_all scheme_char p \<and> b = buffer @ map ascii_lower p"
proof (induction s arbitrary: buffer)
  case Nil
  then show ?case by simp
next
  case (Cons c s)
  show ?case
  proof (cases "scheme_char c")
    case True
    then have "scheme_state (buffer @ [ascii_lower c]) s = Some (b, r)"
      using Cons.prems by (simp add: scheme_char_def)
    from Cons.IH [OF this] obtain p where
      p: "s = p @ CHR '':'' # r" "list_all scheme_char p" "b = (buffer @ [ascii_lower c]) @ map ascii_lower p"
      by blast
    show ?thesis
      by (rule exI [of _ "c # p"]) (use p True in simp)
  next
    case False
    then have "c = CHR '':'' \<and> b = buffer \<and> r = s"
      using Cons.prems by (simp add: scheme_char_def split: if_splits)
    then show ?thesis by (intro exI [of _ "[]"]) simp
  qed
qed

lemma scheme_state_append:
  "list_all scheme_char p \<Longrightarrow>
     scheme_state buffer (p @ CHR '':'' # r) = Some (buffer @ map ascii_lower p, r)"
proof (induction p arbitrary: buffer)
  case Nil
  have "\<not> scheme_char CHR '':''" using scheme_char_not_colon by blast
  then show ?case by (simp add: scheme_char_def)
next
  case (Cons c p)
  then show ?case by (simp add: scheme_char_def)
qed

lemma has_scheme_decompose:
  "has_scheme s \<Longrightarrow> s = before_colon s @ CHR '':'' # after_colon s"
proof -
  assume "has_scheme s"
  then have c: "CHR '':'' \<in> set s" by (simp add: has_scheme_def)
  then have "dropWhile (\<lambda>c. c \<noteq> CHR '':'') s \<noteq> []" by (simp add: dropWhile_eq_Nil_conv)
  moreover have "hd (dropWhile (\<lambda>c. c \<noteq> CHR '':'') s) = CHR '':''"
    using hd_dropWhile [of "\<lambda>c. c \<noteq> CHR '':''" s] calculation by blast
  ultimately have "dropWhile (\<lambda>c. c \<noteq> CHR '':'') s = CHR '':'' # after_colon s"
    unfolding after_colon_def by (metis list.collapse)
  then show ?thesis
    unfolding before_colon_def using takeWhile_dropWhile_id [of "\<lambda>c. c \<noteq> CHR '':''" s] by metis
qed

lemma scheme_start_state_scheme:
  assumes "has_scheme s"
  shows "scheme_start_state s = Some (map ascii_lower (before_colon s), after_colon s)"
proof -
  from assms have sc: "is_scheme (before_colon s)" by (simp add: has_scheme_def)
  then obtain c p where cp: "before_colon s = c # p" by (cases "before_colon s") (simp_all add: is_scheme_def)
  from sc cp have a: "is_ascii_alpha c" and l: "list_all scheme_char p" by (simp_all add: is_scheme_def)
  have s: "s = c # (p @ CHR '':'' # after_colon s)"
    using has_scheme_decompose [OF assms] cp by simp
  have "scheme_start_state (c # (p @ CHR '':'' # after_colon s))
      = scheme_state [ascii_lower c] (p @ CHR '':'' # after_colon s)"
    using a by (simp add: scheme_start_state_def)
  also have "\<dots> = Some ([ascii_lower c] @ map ascii_lower p, after_colon s)"
    by (rule scheme_state_append [OF l])
  finally have "scheme_start_state (c # (p @ CHR '':'' # after_colon s))
      = Some (map ascii_lower (before_colon s), after_colon s)"
    using cp by simp
  then show ?thesis using s by metis
qed

lemma scheme_start_state_has_scheme:
  assumes "scheme_start_state s = Some (b, r)"
  shows "has_scheme s"
proof -
  from assms obtain c s' where s: "s = c # s'" and a: "is_ascii_alpha c"
      and st: "scheme_state [ascii_lower c] s' = Some (b, r)"
    by (cases s) (simp_all add: scheme_start_state_def split: if_splits)
  from scheme_state_Some [OF st] obtain p where
    p: "s' = p @ CHR '':'' # r" "list_all scheme_char p" by blast
  have n: "\<forall>x \<in> set (c # p). x \<noteq> CHR '':''"
    using p(2) a scheme_char_not_colon is_ascii_alpha_scheme_char by (auto simp add: list_all_iff)
  have "takeWhile (\<lambda>c. c \<noteq> CHR '':'') ((c # p) @ CHR '':'' # r) = c # p"
    using n by (intro takeWhile_tail [THEN trans]) (simp_all add: takeWhile_eq_all_conv)
  then have "before_colon s = c # p" using s p(1) by (simp add: before_colon_def)
  then show ?thesis using s p a is_ascii_alpha_scheme_char by (simp add: has_scheme_def is_scheme_def)
qed

lemma scheme_start_state_None_iff: "scheme_start_state s = None \<longleftrightarrow> \<not> has_scheme s"
  using scheme_start_state_scheme scheme_start_state_has_scheme
  by (metis option.distinct(1) option.exhaust surj_pair)





lemma no_scheme_rejected: "\<not> has_scheme (url_input s) \<Longrightarrow> \<not> new_URL U s"
  by (simp add: new_URL_def scheme_start_state_None_iff [symmetric])









lemma new_URL_iff:
  "new_URL U s \<longleftrightarrow>
     has_scheme (url_input s)
     \<and> U (map ascii_lower (before_colon (url_input s))) (after_colon (url_input s))"
proof (cases "has_scheme (url_input s)")
  case True
  then show ?thesis by (simp add: new_URL_def scheme_start_state_scheme)
next
  case False
  then show ?thesis using no_scheme_rejected by blast
qed

lemmas url_eval =
  new_URL_def url_input_def is_c0_or_space_def is_tab_or_newline_def scheme_start_state_def
  is_ascii_alpha_def ascii_lower_def is_digit_of_def digit_value_def one_of_def Let_def
  parse_after_scheme_def is_special_def special_authority_slashes_state_def is_slash_def
  ends_authority_def host_parser_def domain_to_ASCII_def needs_idna_def
  forbidden_domain_code_point_def forbidden_host_code_point_def ends_in_number_def
  ipv4_number_def ipv4_parser_def port_in_range_def digits_value_def
  path_or_authority_state_def file_state_def file_slash_state_def is_windows_drive_letter_def
  ipv6_parser_def ipv4_in_ipv6_def char_of_def ipv6_pieces.simps

lemma URL_constructor_accepts:
  "list_all (URL_constructor I)
    [''https://github.com/r/m'', ''https://r.github.io/m/'', '' https://github.com/r/m '',
     ''ht'' @ [CHR 0x0A] @ ''tps://r.github.io/m/'', ''HTTPS://GitHub.com'',
     ''https:///github.com'', ''http:example.com'', ''http://github.com/a b'',
     ''http://127.0.0.1:8080/'', ''http://a:65535'', ''http://255.255.255.255'',
     ''http://4294967295'', ''http://[::1]/'', ''http://[1:2:3:4:5:6:7:8]'',
     ''http://[::ffff:1.2.3.4]'', ''http://%41.com/'', ''http://u:p@h/'', ''mailto:a@b.c'',
     ''localhost:3000'', ''sc://a/'', ''file:///x'']"
  by (simp add: URL_constructor_def url_eval)

lemma URL_constructor_rejects:
  "list_all (\<lambda>s. \<not> URL_constructor I s)
    [''not-a-url'', [], ''/about'', ''//example.com/x'', ''www.github.com'', ''github.com/r/m'',
     ''http://'', ''https:'', ''https://git hub.com/'', ''http://a<b'', ''http://a:99999'',
     ''http://a:65536'', ''http://a:b'', ''http://user@'', ''http://[::1'',
     ''http://[1:2:3:4:5:6:7]'', ''http://[1::2::3]'', ''http://1.2.3.4.5'', ''http://1.2.3.256'',
     ''http://4294967296'', ''http://a%2Fb'', ''sc://a b/'', ''file://example:1/'']"
  by (simp add: URL_constructor_def url_eval)

section \<open>The claims about \<open>formatDate\<close>\<close>

text \<open>
  Claim C1: for every valid calendar date in the form \<open>YYYY-MM-DD\<close> the day of the
  month in the string \<open>formatDate\<close> returns is the day of the input, whatever the zone
  of the host.

  The code misses one date. The constructor \<open>Date\<close> takes a year argument from \<open>0\<close> to
  \<open>99\<close> for \<open>1900\<close> to \<open>1999\<close>, so the year \<open>0000\<close>, a leap year, is taken for \<open>1900\<close>,
  which is none: the valid date \<open>0000-02-29\<close> (it passes the check \<open>date\<close> of the blog
  schema, lemma \<open>dateRegex_iff\<close>) comes out as \<open>Mar 01, 1900\<close>, day \<open>01\<close> and not \<open>29\<close>,
  in every zone in which that local midnight exists. Lemma \<open>formatDate_keeps_day\<close>
  above shows that this is the only valid date whose day is not kept in such a zone
  (a zone that skips a whole day shifts the dates of that day, lemma
  \<open>formatDate_skipped_day\<close>).
\<close>

theorem formatDate_year_zero:
  assumes "agrees_at LocalTZA (local_midnight 0 1 29)"
  shows "is_calendar_date ''0000-02-29'' \<and> dateRegex ''0000-02-29''
    \<and> formatDate LocalTZA ''0000-02-29'' = ''Mar 01, 1900''
    \<and> day_of_month (formatDate LocalTZA ''0000-02-29'') = ''01''"
proof -
  have i: "iso_fields ''0000-02-29'' = Some (0, 2, 29)"
    by (simp add: iso_fields_def is_digit_of_def digit_value_def digits_value_def)
  have c: "is_calendar_date ''0000-02-29''"
    by (simp add: is_calendar_date_def i valid_date_def days_in_month_def DaysInYear_def)
  have t: "local_midnight 0 1 29 = - 2203891200000"
    by (simp add: local_midnight_def full_year_def DayOfFirst_def DayFromYear_def DayFromMonth_def
        DaysInYear_def msPerDay_def)
  have Y: "YearFromTime (- 2203891200000) = 1900"
    by (simp add: YearFromTime_def Day_def msPerDay_def TimeFromYear_def DayFromYear_def)
  have M: "MonthFromTime (- 2203891200000) = 2"
    by (simp add: MonthFromTime_def InLeapYear_def DaysInYear_def DayWithinYear_def Y Day_def
        msPerDay_def DayFromYear_def)
  have D: "DateFromTime (- 2203891200000) = 1"
    by (simp add: DateFromTime_def M InLeapYear_def DaysInYear_def DayWithinYear_def Y Day_def
        msPerDay_def DayFromYear_def)
  have s: "en_US_short 1900 2 1 = ''Mar 01, 1900''"
    by (simp add: en_US_short_def month_short_def two_digit_def decimal.simps char_of_def)
  have a: "agrees_at LocalTZA (local_midnight 0 (2 - 1) 29)" using assms by simp
  have "formatDate LocalTZA ''0000-02-29'' = ''Mar 01, 1900''"
    using formatDate_iso [OF i a] by (simp add: t Y M D s)
  moreover have "dateRegex ''0000-02-29''"
    by (simp add: dateRegex_def leap_year_digits_def one_of_def is_digit_of_def digit_value_def)
  ultimately show ?thesis using c by (simp add: day_of_month_def)
qed

text \<open>C1, at the zone UTC.\<close>

theorem formatDate_year_zero_witness:
  "agrees_at (fixed_zone 0) (local_midnight 0 1 29)
   \<and> is_calendar_date ''0000-02-29'' \<and> dateRegex ''0000-02-29''
   \<and> formatDate (fixed_zone 0) ''0000-02-29'' = ''Mar 01, 1900''
   \<and> day_of_month (formatDate (fixed_zone 0) ''0000-02-29'') = ''01''
   \<and> drop 8 ''0000-02-29'' = ''29''"
proof -
  have a: "agrees_at (fixed_zone 0) (local_midnight 0 1 29)"
    by (simp add: agrees_at_fixed_zone msPerDay_def)
  show ?thesis using formatDate_year_zero [OF a] a by (simp add: day_of_month_def)
qed

text \<open>
  Claim C2: \<open>formatDate\<close> applied to \<open>2023-06-12\<close> returns \<open>Jun 12, 2023\<close>: the
  abbreviated month name, the day in two digits and the year in four, in every zone in
  which the local midnight of 12 June 2023 exists.
\<close>

theorem formatDate_example:
  assumes "agrees_at LocalTZA (local_midnight 2023 5 12)"
  shows "formatDate LocalTZA ''2023-06-12'' = ''Jun 12, 2023''"
proof -
  have i: "iso_fields ''2023-06-12'' = Some (2023, 6, 12)"
    by (simp add: iso_fields_def is_digit_of_def digit_value_def digits_value_def)
  have t: "local_midnight 2023 5 12 = 1686528000000"
    by (simp add: local_midnight_def full_year_def DayOfFirst_def DayFromYear_def DayFromMonth_def
        DaysInYear_def msPerDay_def)
  have Y: "YearFromTime 1686528000000 = 2023"
    by (simp add: YearFromTime_def Day_def msPerDay_def TimeFromYear_def DayFromYear_def)
  have M: "MonthFromTime 1686528000000 = 5"
    by (simp add: MonthFromTime_def InLeapYear_def DaysInYear_def DayWithinYear_def Y Day_def
        msPerDay_def DayFromYear_def)
  have D: "DateFromTime 1686528000000 = 12"
    by (simp add: DateFromTime_def M InLeapYear_def DaysInYear_def DayWithinYear_def Y Day_def
        msPerDay_def DayFromYear_def)
  have s: "en_US_short 2023 5 12 = ''Jun 12, 2023''"
    by (simp add: en_US_short_def month_short_def two_digit_def decimal.simps char_of_def)
  have a: "agrees_at LocalTZA (local_midnight 2023 (6 - 1) 12)" using assms by simp
  show ?thesis using formatDate_iso [OF i a] by (simp add: t Y M D s)
qed

text \<open>C2 in two zones of fixed offset, \<open>+05:30\<close> and \<open>-08:00\<close>.\<close>

theorem formatDate_example_witness:
  "agrees_at (fixed_zone 19800000) (local_midnight 2023 5 12)
   \<and> formatDate (fixed_zone 19800000) ''2023-06-12'' = ''Jun 12, 2023''
   \<and> agrees_at (fixed_zone (- 28800000)) (local_midnight 2023 5 12)
   \<and> formatDate (fixed_zone (- 28800000)) ''2023-06-12'' = ''Jun 12, 2023''"
proof -
  have a: "agrees_at (fixed_zone 19800000) (local_midnight 2023 5 12)"
    by (simp add: agrees_at_fixed_zone msPerDay_def)
  have b: "agrees_at (fixed_zone (- 28800000)) (local_midnight 2023 5 12)"
    by (simp add: agrees_at_fixed_zone msPerDay_def)
  show ?thesis using formatDate_example [OF a] formatDate_example [OF b] a b by simp
qed



text \<open>
  Claim C10: \<open>formatDate\<close> is total on strings. None of the operations it is made of
  throws on the values it gets there (\<open>split\<close> on a string, \<open>Number\<close> on a string,
  reading an array past its end, subtraction of Numbers, \<open>new Date\<close> on Numbers and
  \<open>toLocaleDateString\<close> with a fixed locale and fixed options), so in the model it is a
  function to strings; the theorem says which strings. The result is \<open>Invalid Date\<close> or
  a date in the pattern of \<open>en-US\<close>, and it is \<open>Invalid Date\<close> in the degenerate cases:
  fewer than three components between hyphens, or one of the first three components
  not numeric, in every zone.
\<close>

theorem formatDate_total:
  "(formatDate LocalTZA dateStr = ''Invalid Date''
      \<or> (\<exists>y m d. formatDate LocalTZA dateStr = en_US_short y m d))
   \<and> (length (split CHR ''-'' dateStr) < 3 \<longrightarrow> formatDate LocalTZA dateStr = ''Invalid Date'')
   \<and> (\<forall>i < 3. i < length (split CHR ''-'' dateStr) \<and> Number (split CHR ''-'' dateStr ! i) = NaN
        \<longrightarrow> formatDate LocalTZA dateStr = ''Invalid Date'')"
proof (intro conjI allI impI)
  show "formatDate LocalTZA dateStr = ''Invalid Date''
      \<or> (\<exists>y m d. formatDate LocalTZA dateStr = en_US_short y m d)"
    by (rule formatDate_forms)
next
  assume "length (split CHR ''-'' dateStr) < 3"
  then have "(2::nat) < 3" "2 < length (split CHR ''-'' dateStr) \<longrightarrow> Number (split CHR ''-'' dateStr ! 2) = NaN"
    by simp_all
  then show "formatDate LocalTZA dateStr = ''Invalid Date''" by (rule formatDate_NaN)
next
  fix i :: nat
  assume "i < 3" "i < length (split CHR ''-'' dateStr) \<and> Number (split CHR ''-'' dateStr ! i) = NaN"
  then show "formatDate LocalTZA dateStr = ''Invalid Date''" by (intro formatDate_NaN [of i]) simp_all
qed

text \<open>C10 at \<open>hello\<close>, at \<open>2023-06\<close> and at a month that is no number.\<close>

theorem formatDate_total_witness:
  "length (split CHR ''-'' ''hello'') < 3 \<and> formatDate (fixed_zone 0) ''hello'' = ''Invalid Date''
   \<and> length (split CHR ''-'' ''2023-06'') < 3 \<and> formatDate (fixed_zone 0) ''2023-06'' = ''Invalid Date''
   \<and> (1::nat) < 3 \<and> 1 < length (split CHR ''-'' ''2023-June-12'')
   \<and> Number (split CHR ''-'' ''2023-June-12'' ! 1) = NaN
   \<and> formatDate (fixed_zone 0) ''2023-June-12'' = ''Invalid Date''"
proof -
  have a: "length (split CHR ''-'' ''hello'') < 3" by simp
  have b: "length (split CHR ''-'' ''2023-06'') < 3" by simp
  have c: "split CHR ''-'' ''2023-June-12'' = [''2023'', ''June'', ''12'']" by simp
  have d: "Number ''June'' = NaN"
    by (simp add: Number_def StringToNumber_def trim_def is_white_space_def non_decimal_def
        unsigned_decimal_def is_digit_of_def digit_value_def Let_def)
  note t = formatDate_total [of "fixed_zone 0"]
  have "formatDate (fixed_zone 0) ''hello'' = ''Invalid Date''"
    using t [of "''hello''"] a by blast
  moreover have "formatDate (fixed_zone 0) ''2023-06'' = ''Invalid Date''"
    using t [of "''2023-06''"] b by blast
  moreover have "formatDate (fixed_zone 0) ''2023-June-12'' = ''Invalid Date''"
    using t [of "''2023-June-12''", THEN conjunct2, THEN conjunct2, rule_format, of 1] c d by simp
  ultimately show ?thesis using a b c d by simp
qed

section \<open>The claims about the collections\<close>

text \<open>
  Claim C3: validation of the \<open>date\<close> of a blog post rejects every string that is not
  in the form \<open>YYYY-MM-DD\<close>, and every string in that form that denotes no date of the
  calendar; the record with date \<open>2023-13-01\<close> fails. (Lemma \<open>dateRegex_iff\<close> has the
  other direction too: the strings the check accepts are the dates of the calendar.)
\<close>

theorem blog_date_rejected:
  assumes "get props ''date'' = JStr s"
    and "iso_fields s = None \<or> (\<exists>y m d. iso_fields s = Some (y, m, d) \<and> \<not> valid_date y m d)"
  shows "\<exists>found. safeParse U (schema blog) (JObj props) = Inl found
    \<and> Issue [Key ''date''] (invalid_string date) \<in> set found"
proof -
  from assms(2) have "\<not> is_calendar_date s" by (auto simp add: is_calendar_date_def)
  then have "\<not> dateRegex s" by (simp add: dateRegex_iff)
  then have "Issue [Key ''date''] (invalid_string date) \<in> set (issues U (schema blog) (JObj props))"
    unfolding blog_issues using assms(1) by (simp add: under_def)
  then show ?thesis by (auto simp add: safeParse_def)
qed

text \<open>C3 at the date \<open>2023-13-01\<close>, month 13, and at a date in another syntax.\<close>

theorem blog_date_rejected_witness:
  "get [(''title'', JStr ''Init''), (''date'', JStr ''2023-13-01''), (''tags'', JArr [])] ''date''
     = JStr ''2023-13-01''
   \<and> iso_fields ''2023-13-01'' = Some (2023, 13, 1) \<and> \<not> valid_date 2023 13 1
   \<and> (\<exists>found. safeParse any_rest (schema blog)
         (JObj [(''title'', JStr ''Init''), (''date'', JStr ''2023-13-01''), (''tags'', JArr [])])
         = Inl found
       \<and> Issue [Key ''date''] (invalid_string date) \<in> set found)
   \<and> get [(''title'', JStr ''Init''), (''date'', JStr ''June 12''), (''tags'', JArr [])] ''date''
     = JStr ''June 12''
   \<and> iso_fields ''June 12'' = None
   \<and> (\<exists>found. safeParse any_rest (schema blog)
         (JObj [(''title'', JStr ''Init''), (''date'', JStr ''June 12''), (''tags'', JArr [])])
         = Inl found
       \<and> Issue [Key ''date''] (invalid_string date) \<in> set found)"
proof -
  have g: "get [(''title'', JStr ''Init''), (''date'', JStr ''2023-13-01''), (''tags'', JArr [])] ''date''
     = JStr ''2023-13-01''" by (simp add: get_def)
  have i: "iso_fields ''2023-13-01'' = Some (2023, 13, 1)"
    by (simp add: iso_fields_def is_digit_of_def digit_value_def digits_value_def)
  have v: "\<not> valid_date 2023 13 1" by (simp add: valid_date_def)
  have g': "get [(''title'', JStr ''Init''), (''date'', JStr ''June 12''), (''tags'', JArr [])] ''date''
     = JStr ''June 12''" by (simp add: get_def)
  have i': "iso_fields ''June 12'' = None" by (simp add: iso_fields_def)
  show ?thesis
    using blog_date_rejected [OF g, of any_rest] blog_date_rejected [OF g', of any_rest] g i v g' i'
    by simp
qed

text \<open>
  Claim C4 says that validation rejects a record whose required text fields are empty:
  a blog post with an empty title, a project with an empty title or description. The
  schemas give these fields \<open>z.string()\<close> with no check of the length, so the empty
  string passes: a blog post with the title \<open>''\<close> and a project with the title and
  the description \<open>''\<close> are accepted as they are.
\<close>

theorem empty_text_accepted:
  "safeParse any_rest (schema blog)
     (JObj [(''title'', JStr ''''), (''date'', JStr ''2023-06-12''), (''tags'', JArr [JStr ''react''])])
   = Inr (JObj [(''title'', JStr ''''), (''date'', JStr ''2023-06-12''), (''tags'', JArr [JStr ''react''])])
   \<and> safeParse any_rest (schema projects)
     (JObj [(''id'', JNum (Val 1)), (''title'', JStr ''''), (''description'', JStr ''''),
            (''imagePath'', JStr ''/m.png''), (''repo'', JStr ''https://github.com/r/m''),
            (''live'', JStr ''https://r.github.io/m/'')])
   = Inr (JObj [(''id'', JNum (Val 1)), (''title'', JStr ''''), (''description'', JStr ''''),
            (''imagePath'', JStr ''/m.png''), (''repo'', JStr ''https://github.com/r/m''),
            (''live'', JStr ''https://r.github.io/m/'')])"
proof -
  define B where "B = [(''title'', JStr ''''), (''date'', JStr ''2023-06-12''),
    (''tags'', JArr [JStr ''react''])]"
  define P where "P = [(''id'', JNum (Val 1)), (''title'', JStr ''''), (''description'', JStr ''''),
            (''imagePath'', JStr ''/m.png''), (''repo'', JStr ''https://github.com/r/m''),
            (''live'', JStr ''https://r.github.io/m/'')]"
  have d: "dateRegex ''2023-06-12''"
    by (simp add: dateRegex_def month_day_digits_def one_of_def is_digit_of_def digit_value_def)
  have s: "scheme_start_state ''https://github.com/r/m'' = Some (''https'', ''//github.com/r/m'')"
    "scheme_start_state ''https://r.github.io/m/'' = Some (''https'', ''//r.github.io/m/'')"
    by (simp_all add: scheme_start_state_def is_ascii_alpha_def ascii_lower_def is_digit_of_def
        digit_value_def one_of_def)
  have i: "url_input ''https://github.com/r/m'' = ''https://github.com/r/m''"
    "url_input ''https://r.github.io/m/'' = ''https://r.github.io/m/''"
    by (simp_all add: url_input_def is_c0_or_space_def is_tab_or_newline_def)
  have u: "new_URL any_rest ''https://github.com/r/m''" "new_URL any_rest ''https://r.github.io/m/''"
    by (simp_all add: new_URL_def s i any_rest_def)
  have g: "get B ''title'' = JStr ''''" "get B ''date'' = JStr ''2023-06-12''"
    "get B ''tags'' = JArr [JStr ''react'']"
    by (simp_all add: B_def get_def)
  have h: "get P ''id'' = JNum (Val 1)" "get P ''title'' = JStr ''''"
    "get P ''description'' = JStr ''''" "get P ''imagePath'' = JStr ''/m.png''"
    "get P ''repo'' = JStr ''https://github.com/r/m''"
    "get P ''live'' = JStr ''https://r.github.io/m/''"
    by (simp_all add: P_def get_def)
  have b1: "issues any_rest (schema blog) (JObj B) = []"
    by (simp add: blog_accepts_iff g is_text_def is_text_sequence_def d)
  have b2: "parsed (schema blog) (JObj B) = JObj B"
    by (simp add: blog_def g) (simp add: B_def)
  have p1: "issues any_rest (schema projects) (JObj P) = []"
    by (simp add: projects_accepts_iff well_formed_project_def h is_text_def is_numeric_def
        is_url_def u)
  have p2: "parsed (schema projects) (JObj P) = JObj P"
    by (simp add: projects_parsed h) (simp add: P_def)
  show ?thesis
    unfolding B_def [symmetric] P_def [symmetric] by (simp add: safeParse_def b1 b2 p1 p2)
qed

text \<open>
  Claim C4 as amended: validation rejects a record whose required text fields are
  missing or not strings (a blog post whose title is no string, a project whose title
  or description is no string), and what a string holds does not matter: a record with
  any string for the title (or the description) has the issues of the same record with
  the empty string there.
\<close>

theorem text_fields_required:
  "(\<not> is_text (get props ''title'') \<longrightarrow>
      (\<exists>found. safeParse U (schema blog) (JObj props) = Inl found)
      \<and> (\<exists>found. safeParse U (schema projects) (JObj props) = Inl found))
   \<and> (\<not> is_text (get props ''description'') \<longrightarrow>
      (\<exists>found. safeParse U (schema projects) (JObj props) = Inl found))
   \<and> issues U (schema blog) (JObj ((''title'', JStr t) # props))
      = issues U (schema blog) (JObj ((''title'', JStr '''') # props))
   \<and> issues U (schema projects) (JObj ((''title'', JStr t) # props))
      = issues U (schema projects) (JObj ((''title'', JStr '''') # props))
   \<and> issues U (schema projects) (JObj ((''description'', JStr t) # props))
      = issues U (schema projects) (JObj ((''description'', JStr '''') # props))"
proof (intro conjI impI)
  assume "\<not> is_text (get props ''title'')"
  then show "\<exists>found. safeParse U (schema blog) (JObj props) = Inl found"
    "\<exists>found. safeParse U (schema projects) (JObj props) = Inl found"
    by (simp_all add: safeParse_Inl_iff blog_accepts_iff projects_accepts_iff well_formed_project_def)
next
  assume "\<not> is_text (get props ''description'')"
  then show "\<exists>found. safeParse U (schema projects) (JObj props) = Inl found"
    by (simp add: safeParse_Inl_iff projects_accepts_iff well_formed_project_def)
qed (simp_all add: blog_issues projects_issues get_def)

text \<open>C4 as amended, at a blog post with no title and a project whose description is null.\<close>

theorem text_fields_required_witness:
  "\<not> is_text (get [(''date'', JStr ''2023-06-12''), (''tags'', JArr [])] ''title'')
   \<and> (\<exists>found. safeParse any_rest (schema blog)
         (JObj [(''date'', JStr ''2023-06-12''), (''tags'', JArr [])]) = Inl found)
   \<and> \<not> is_text (get [(''id'', JNum (Val 1)), (''title'', JStr ''m''), (''description'', JNull)]
         ''description'')
   \<and> (\<exists>found. safeParse any_rest (schema projects)
         (JObj [(''id'', JNum (Val 1)), (''title'', JStr ''m''), (''description'', JNull)]) = Inl found)"
proof -
  have a: "\<not> is_text (get [(''date'', JStr ''2023-06-12''), (''tags'', JArr [])] ''title'')"
    by (simp add: get_def is_text_def)
  have b: "\<not> is_text (get [(''id'', JNum (Val 1)), (''title'', JStr ''m''), (''description'', JNull)]
         ''description'')"
    by (simp add: get_def is_text_def)
  show ?thesis
    using text_fields_required [of "[(''date'', JStr ''2023-06-12''), (''tags'', JArr [])]" any_rest]
      text_fields_required
        [of "[(''id'', JNum (Val 1)), (''title'', JStr ''m''), (''description'', JNull)]" any_rest]
      a b by blast
qed




text \<open>
  Claim C6: a blog post that has no \<open>title\<close>, or whose \<open>tags\<close> are not a sequence of
  strings, fails validation, and loading the blog collection from a source that holds
  such a record fails.
\<close>

theorem blog_missing_title_or_bad_tags:
  assumes "map_of props ''title'' = None \<or> \<not> is_text_sequence (get props ''tags'')"
  shows "(\<exists>found. safeParse U (schema blog) (JObj props) = Inl found)
    \<and> (src (loader blog) = Some raws \<and> JObj props \<in> set raws \<longrightarrow> (\<exists>e. load U src blog = Inl e))"
proof -
  have "\<not> is_text (get props ''title'') \<or> \<not> is_text_sequence (get props ''tags'')"
    using assms by (auto simp add: get_def is_text_def)
  then have n: "issues U (schema blog) (JObj props) \<noteq> []" by (auto simp add: blog_accepts_iff)
  then have "\<exists>found. safeParse U (schema blog) (JObj props) = Inl found"
    by (simp add: safeParse_Inl_iff)
  moreover have "\<exists>e. load U src blog = Inl e"
    if "src (loader blog) = Some raws" "JObj props \<in> set raws"
    using that load_from_invalid [OF that(2) n, of 0] by (simp add: load_def)
  ultimately show ?thesis by blast
qed

text \<open>C6 at a record with no title and at a record with a number among its tags.\<close>

theorem blog_missing_title_or_bad_tags_witness:
  "map_of [(''date'', JStr ''2023-06-12''), (''tags'', JArr [JStr ''react''])] ''title'' = None
   \<and> (\<exists>found. safeParse any_rest (schema blog)
         (JObj [(''date'', JStr ''2023-06-12''), (''tags'', JArr [JStr ''react''])]) = Inl found)
   \<and> \<not> is_text_sequence
         (get [(''title'', JStr ''Init''), (''date'', JStr ''2023-06-12''),
               (''tags'', JArr [JStr ''react'', JNum (Val 3)])] ''tags'')
   \<and> (\<exists>e. load any_rest
         (\<lambda>l. Some [JObj [(''title'', JStr ''Init''), (''date'', JStr ''2023-06-12''),
                           (''tags'', JArr [JStr ''react'', JNum (Val 3)])]])
         blog = Inl e)"
proof -
  define A where "A = [(''date'', JStr ''2023-06-12''), (''tags'', JArr [JStr ''react''])]"
  define B where "B = [(''title'', JStr ''Init''), (''date'', JStr ''2023-06-12''),
               (''tags'', JArr [JStr ''react'', JNum (Val 3)])]"
  have a: "map_of A ''title'' = None" by (simp add: A_def)
  have b: "\<not> is_text_sequence (get B ''tags'')"
    by (simp add: B_def get_def is_text_sequence_def is_text_def)
  have "\<exists>found. safeParse any_rest (schema blog) (JObj A) = Inl found"
    using blog_missing_title_or_bad_tags [of A any_rest "\<lambda>l. None" "[]"] a by blast
  moreover have "\<exists>e. load any_rest (\<lambda>l. Some [JObj B]) blog = Inl e"
    using blog_missing_title_or_bad_tags [of B any_rest "\<lambda>l. Some [JObj B]" "[JObj B]"] b by simp
  ultimately show ?thesis using a b unfolding A_def B_def by simp
qed

text \<open>
  Claim C7: a project whose fields all satisfy the schema (a numeric id; strings for
  title, description and imagePath; URLs the parser accepts for repo and live) passes
  validation, and each of the six fields of the validated record is the field of the
  input; loading a source of such records succeeds with one entry for each record, its
  fields unchanged.
\<close>

theorem well_formed_project_round_trip:
  "(well_formed_project U raw \<longrightarrow>
      (\<exists>entry. safeParse U (schema projects) raw = Inr entry
         \<and> (\<forall>k \<in> set project_fields. field entry k = field raw k)))
   \<and> (src (loader projects) = Some raws \<and> list_all (well_formed_project U) raws \<longrightarrow>
      (\<exists>entries. load U src projects = Inr entries
         \<and> length entries = length raws
         \<and> (\<forall>i < length raws. \<forall>k \<in> set project_fields. field (entries ! i) k = field (raws ! i) k)))"
proof (intro conjI impI)
  have f: "\<forall>k \<in> set project_fields. field (parsed (schema projects) v) k = field v k"
    if "well_formed_project U v" for v
  proof (cases v)
    case (JObj props)
    then show ?thesis using projects_parsed_field [of _ props] by (simp add: field_def)
  qed (use that in \<open>simp_all add: well_formed_project_def\<close>)
  {
    assume w: "well_formed_project U raw"
    then have "safeParse U (schema projects) raw = Inr (parsed (schema projects) raw)"
      by (simp add: safeParse_Inr_iff projects_accepts_iff)
    then show "\<exists>entry. safeParse U (schema projects) raw = Inr entry
         \<and> (\<forall>k \<in> set project_fields. field entry k = field raw k)"
      using f [OF w] by simp
  }
  {
    assume a: "src (loader projects) = Some raws \<and> list_all (well_formed_project U) raws"
    then have "list_all (\<lambda>raw. issues U (schema projects) raw = []) raws"
      by (simp add: projects_accepts_iff)
    then have l: "load U src projects = Inr (map (parsed (schema projects)) raws)"
      using a by (simp add: load_def load_from_valid)
    have "\<forall>i < length raws. \<forall>k \<in> set project_fields.
        field (map (parsed (schema projects)) raws ! i) k = field (raws ! i) k"
      using a f by (simp add: list_all_length)
    then show "\<exists>entries. load U src projects = Inr entries
         \<and> length entries = length raws
         \<and> (\<forall>i < length raws. \<forall>k \<in> set project_fields. field (entries ! i) k = field (raws ! i) k)"
      using l by simp
  }
qed

text \<open>C7 at one project record.\<close>

theorem well_formed_project_round_trip_witness:
  "well_formed_project any_rest
     (JObj [(''id'', JNum (Val 1)), (''title'', JStr ''Monster''), (''description'', JStr ''3D''),
            (''imagePath'', JStr ''/m.png''), (''repo'', JStr ''https://github.com/r/m''),
            (''live'', JStr ''https://r.github.io/m/'')])
   \<and> (\<exists>entry. safeParse any_rest (schema projects)
         (JObj [(''id'', JNum (Val 1)), (''title'', JStr ''Monster''), (''description'', JStr ''3D''),
            (''imagePath'', JStr ''/m.png''), (''repo'', JStr ''https://github.com/r/m''),
            (''live'', JStr ''https://r.github.io/m/'')]) = Inr entry
       \<and> field entry ''id'' = JNum (Val 1) \<and> field entry ''title'' = JStr ''Monster''
       \<and> field entry ''description'' = JStr ''3D'' \<and> field entry ''imagePath'' = JStr ''/m.png''
       \<and> field entry ''repo'' = JStr ''https://github.com/r/m''
       \<and> field entry ''live'' = JStr ''https://r.github.io/m/'')
   \<and> (\<exists>entries. load any_rest
         (\<lambda>l. Some [JObj [(''id'', JNum (Val 1)), (''title'', JStr ''Monster''),
            (''description'', JStr ''3D''), (''imagePath'', JStr ''/m.png''),
            (''repo'', JStr ''https://github.com/r/m''), (''live'', JStr ''https://r.github.io/m/'')]])
         projects = Inr entries
       \<and> length entries = 1 \<and> field (entries ! 0) ''title'' = JStr ''Monster'')"
proof -
  define P where "P = [(''id'', JNum (Val 1)), (''title'', JStr ''Monster''), (''description'', JStr ''3D''),
            (''imagePath'', JStr ''/m.png''), (''repo'', JStr ''https://github.com/r/m''),
            (''live'', JStr ''https://r.github.io/m/'')]"
  have s: "scheme_start_state ''https://github.com/r/m'' = Some (''https'', ''//github.com/r/m'')"
    "scheme_start_state ''https://r.github.io/m/'' = Some (''https'', ''//r.github.io/m/'')"
    by (simp_all add: scheme_start_state_def is_ascii_alpha_def ascii_lower_def is_digit_of_def
        digit_value_def one_of_def)
  have i: "url_input ''https://github.com/r/m'' = ''https://github.com/r/m''"
    "url_input ''https://r.github.io/m/'' = ''https://r.github.io/m/''"
    by (simp_all add: url_input_def is_c0_or_space_def is_tab_or_newline_def)
  have u: "new_URL any_rest ''https://github.com/r/m''" "new_URL any_rest ''https://r.github.io/m/''"
    by (simp_all add: new_URL_def s i any_rest_def)
  have h: "get P ''id'' = JNum (Val 1)" "get P ''title'' = JStr ''Monster''"
    "get P ''description'' = JStr ''3D''" "get P ''imagePath'' = JStr ''/m.png''"
    "get P ''repo'' = JStr ''https://github.com/r/m''"
    "get P ''live'' = JStr ''https://r.github.io/m/''"
    by (simp_all add: P_def get_def)
  have w: "well_formed_project any_rest (JObj P)"
    by (simp add: well_formed_project_def h is_text_def is_numeric_def is_url_def u)
  from well_formed_project_round_trip [of any_rest "JObj P", THEN conjunct1] w
  obtain entry where e: "safeParse any_rest (schema projects) (JObj P) = Inr entry"
    "\<forall>k \<in> set project_fields. field entry k = field (JObj P) k" by blast
  have "field entry ''id'' = JNum (Val 1)" "field entry ''title'' = JStr ''Monster''"
    "field entry ''description'' = JStr ''3D''" "field entry ''imagePath'' = JStr ''/m.png''"
    "field entry ''repo'' = JStr ''https://github.com/r/m''"
    "field entry ''live'' = JStr ''https://r.github.io/m/''"
    using e(2) h by (simp_all add: project_fields_def field_def)
  note f = this
  from well_formed_project_round_trip [of any_rest "JObj P" "\<lambda>l. Some [JObj P]" "[JObj P]",
      THEN conjunct2] w
  obtain entries where l: "load any_rest (\<lambda>l. Some [JObj P]) projects = Inr entries"
    "length entries = length [JObj P]"
    "\<forall>i < length [JObj P]. \<forall>k \<in> set project_fields. field (entries ! i) k = field ([JObj P] ! i) k"
    by auto
  have "field (entries ! 0) ''title'' = JStr ''Monster''"
    using l(3) h by (simp add: project_fields_def field_def)
  then have "\<exists>entries. load any_rest (\<lambda>l. Some [JObj P]) projects = Inr entries
       \<and> length entries = 1 \<and> field (entries ! 0) ''title'' = JStr ''Monster''"
    using l(1,2) by simp
  then show ?thesis using w e(1) f unfolding P_def by blast
qed

text \<open>
  Claim C8: loading the projects collection twice from the same unchanged source gives
  equal sequences of records. A load is a function of what the loader finds at the
  source of the collection: two environments that agree there (whatever else differs)
  give the same result, and the entries of a successful load are the records of the
  source, each parsed with the schema.
\<close>

theorem load_twice:
  "(src (loader projects) = src' (loader projects) \<longrightarrow> load U src projects = load U src' projects)
   \<and> (src (loader projects) = Some raws \<and> load U src projects = Inr entries \<longrightarrow>
        entries = map (parsed (schema projects)) raws)"
  by (auto simp add: load_def dest: load_from_Inr)

text \<open>C8 at two environments that differ away from the source of the projects.\<close>

theorem load_twice_witness:
  "(\<lambda>l. if l = file ''./src/content/projects/projects.json''
         then Some [JObj [(''id'', JNum (Val 1)), (''title'', JStr ''Monster''),
            (''description'', JStr ''3D''), (''imagePath'', JStr ''/m.png''),
            (''repo'', JStr ''https://github.com/r/m''), (''live'', JStr ''https://r.github.io/m/'')]]
         else None) (loader projects)
     = (\<lambda>l. Some [JObj [(''id'', JNum (Val 1)), (''title'', JStr ''Monster''),
            (''description'', JStr ''3D''), (''imagePath'', JStr ''/m.png''),
            (''repo'', JStr ''https://github.com/r/m''), (''live'', JStr ''https://r.github.io/m/'')]])
         (loader projects)
   \<and> load any_rest (\<lambda>l. if l = file ''./src/content/projects/projects.json''
         then Some [JObj [(''id'', JNum (Val 1)), (''title'', JStr ''Monster''),
            (''description'', JStr ''3D''), (''imagePath'', JStr ''/m.png''),
            (''repo'', JStr ''https://github.com/r/m''), (''live'', JStr ''https://r.github.io/m/'')]]
         else None) projects
     = load any_rest (\<lambda>l. Some [JObj [(''id'', JNum (Val 1)), (''title'', JStr ''Monster''),
            (''description'', JStr ''3D''), (''imagePath'', JStr ''/m.png''),
            (''repo'', JStr ''https://github.com/r/m''), (''live'', JStr ''https://r.github.io/m/'')]])
         projects
   \<and> load any_rest (\<lambda>l. Some [JObj [(''id'', JNum (Val 1)), (''title'', JStr ''Monster''),
            (''description'', JStr ''3D''), (''imagePath'', JStr ''/m.png''),
            (''repo'', JStr ''https://github.com/r/m''), (''live'', JStr ''https://r.github.io/m/'')]])
         projects
     = Inr [JObj [(''id'', JNum (Val 1)), (''title'', JStr ''Monster''),
            (''description'', JStr ''3D''), (''imagePath'', JStr ''/m.png''),
            (''repo'', JStr ''https://github.com/r/m''), (''live'', JStr ''https://r.github.io/m/'')]]"
proof -
  define P where "P = [(''id'', JNum (Val 1)), (''title'', JStr ''Monster''),
            (''description'', JStr ''3D''), (''imagePath'', JStr ''/m.png''),
            (''repo'', JStr ''https://github.com/r/m''), (''live'', JStr ''https://r.github.io/m/'')]"
  have a: "(\<lambda>l. if l = file ''./src/content/projects/projects.json'' then Some [JObj P] else None)
      (loader projects) = (\<lambda>l. Some [JObj P]) (loader projects)"
    by (simp add: projects_def)
  have s: "scheme_start_state ''https://github.com/r/m'' = Some (''https'', ''//github.com/r/m'')"
    "scheme_start_state ''https://r.github.io/m/'' = Some (''https'', ''//r.github.io/m/'')"
    by (simp_all add: scheme_start_state_def is_ascii_alpha_def ascii_lower_def is_digit_of_def
        digit_value_def one_of_def)
  have i: "url_input ''https://github.com/r/m'' = ''https://github.com/r/m''"
    "url_input ''https://r.github.io/m/'' = ''https://r.github.io/m/''"
    by (simp_all add: url_input_def is_c0_or_space_def is_tab_or_newline_def)
  have u: "new_URL any_rest ''https://github.com/r/m''" "new_URL any_rest ''https://r.github.io/m/''"
    by (simp_all add: new_URL_def s i any_rest_def)
  have h: "get P ''id'' = JNum (Val 1)" "get P ''title'' = JStr ''Monster''"
    "get P ''description'' = JStr ''3D''" "get P ''imagePath'' = JStr ''/m.png''"
    "get P ''repo'' = JStr ''https://github.com/r/m''"
    "get P ''live'' = JStr ''https://r.github.io/m/''"
    by (simp_all add: P_def get_def)
  have w: "well_formed_project any_rest (JObj P)"
    by (simp add: well_formed_project_def h is_text_def is_numeric_def is_url_def u)
  have p: "parsed (schema projects) (JObj P) = JObj P"
    by (simp add: projects_parsed h) (simp add: P_def)
  have "list_all (\<lambda>raw. issues any_rest (schema projects) raw = []) [JObj P]"
    using w by (simp add: projects_accepts_iff)
  then have l: "load any_rest (\<lambda>l. Some [JObj P]) projects = Inr [JObj P]"
    by (simp add: load_def load_from_valid p del: load_from.simps)
  note t = load_twice [of "\<lambda>l. if l = file ''./src/content/projects/projects.json''
         then Some [JObj P] else None" "\<lambda>l. Some [JObj P]" any_rest]
  have "load any_rest (\<lambda>l. if l = file ''./src/content/projects/projects.json''
         then Some [JObj P] else None) projects = load any_rest (\<lambda>l. Some [JObj P]) projects"
    using t a by blast
  then show ?thesis using a l unfolding P_def by simp
qed

end
